theory Spec2Isabelle
  imports Complex_Main
begin

section \<open>Data model\<close>

text \<open>
  The exceptions of \<^verbatim>\<open>geotorch/hurwitz.py\<close> and of the libraries it calls. The test
  \<^verbatim>\<open>test_hurwitz_errors\<close> catches \<^verbatim>\<open>VectorError\<close> and \<^verbatim>\<open>NonSquareError\<close> with
  \<^verbatim>\<open>assertRaises(ValueError)\<close>: both are subclasses of \<^verbatim>\<open>ValueError\<close>.
  \<^verbatim>\<open>RuntimeError\<close> is what torch raises on a tensor of the wrong shape,
  \<^verbatim>\<open>SolverError\<close> what \<^verbatim>\<open>Problem.solve\<close> raises, \<^verbatim>\<open>LinAlgError\<close> what a linear-algebra
  routine raises on an argument it cannot treat. The libraries raise exceptions of their
  own only (\<open>lib_error\<close>): the exceptions of geotorch are unknown to them.
  \<^verbatim>\<open>RankError\<close> is the error of a manifold built with a rank outside \<open>1 \<le> rank \<le> n\<close>; the
  test \<^verbatim>\<open>test_positive_semidefinite_fixed_trace_errors\<close> catches it as a \<^verbatim>\<open>ValueError\<close>.
\<close>

datatype lib_error =
    Lib_ValueError
  | Lib_RuntimeError
  | Lib_SolverError
  | Lib_LinAlgError

datatype error =
    VectorError
  | NonSquareError
  | InManifoldError
  | RankError
  | ValueError
  | RuntimeError
  | SolverError
  | LinAlgError

fun raised :: "lib_error \<Rightarrow> error" where
  "raised Lib_ValueError = ValueError"
| "raised Lib_RuntimeError = RuntimeError"
| "raised Lib_SolverError = SolverError"
| "raised Lib_LinAlgError = LinAlgError"

fun is_ValueError :: "error \<Rightarrow> bool" where
  "is_ValueError VectorError = True"
| "is_ValueError NonSquareError = True"
| "is_ValueError RankError = True"
| "is_ValueError ValueError = True"
| "is_ValueError _ = False"

text \<open>
  Numbers are real numbers. The program is modelled first in exact arithmetic and then,
  where a claim depends on it, with the roundings of its floating-point numbers. A matrix
  is read through its entries; a tensor is its size (the tuple \<^verbatim>\<open>A.size()\<close>) and, for every
  index into the leading (batch) dimensions, the matrix of its last two dimensions.
\<close>

type_synonym rmat = "nat \<Rightarrow> nat \<Rightarrow> real"

record tensor =
  size_of :: "nat list"
  mat_at :: "nat list \<Rightarrow> rmat"

text \<open>
  A manifold as the product consumes it: its \<^verbatim>\<open>forward\<close> (no error path) and its
  \<^verbatim>\<open>right_inverse(point, check_in_manifold)\<close>.
\<close>

record manifold =
  m_forward :: "tensor \<Rightarrow> tensor"
  m_right_inverse :: "tensor \<Rightarrow> bool \<Rightarrow> error + tensor"

text \<open>
  The argument \<^verbatim>\<open>triv\<close>: a string, of which \<^verbatim>\<open>"expm"\<close> and \<^verbatim>\<open>"cayley"\<close> name a map, or a
  callable from skew-symmetric to orthogonal matrices.
\<close>

datatype triv = Name string | Callable "rmat \<Rightarrow> rmat"

text \<open>
  The classes \<^verbatim>\<open>PSD\<close> and \<^verbatim>\<open>Skew\<close> live in modules that are not part of the sources at
  hand (\<^verbatim>\<open>geotorch/psd.py\<close>, \<^verbatim>\<open>geotorch/skew.py\<close>); their constructors are parameters
  of the model. \<^verbatim>\<open>PSD(size, triv=triv)\<close> is given arguments of the caller of \<^verbatim>\<open>Hurwitz\<close>
  and may raise on them; \<^verbatim>\<open>Skew()\<close> is called without arguments.
\<close>

record geotorch =
  PSD :: "nat list \<Rightarrow> triv \<Rightarrow> error + manifold"
  Skew :: "manifold"

record hurwitz =
  manifolds_of :: "manifold list"
  self_n :: nat
  self_tensorial_size :: "nat list"
  self_alpha :: real
  self_In :: tensor

section \<open>Construction\<close>

text \<open>\<^verbatim>\<open>torch.eye(n)\<close>: a tensor of size \<open>(n, n)\<close>; read at any batch index it is the identity.\<close>

definition eye :: "nat \<Rightarrow> tensor" where
  "eye n = \<lparr>size_of = [n, n], mat_at = (\<lambda>b i j. if i = j then 1 else 0)\<rparr>"

text \<open>
  \<^verbatim>\<open>Hurwitz.parse_size\<close>. The slice \<^verbatim>\<open>size[-2:]\<close> of a tuple of at least two entries is
  its last two entries, \<^verbatim>\<open>size[:-2]\<close> the rest.
\<close>

definition parse_size :: "nat list \<Rightarrow> error + (nat \<times> nat list)" where
  "parse_size sz =
     (if length sz < 2 then Inl VectorError
      else
        let n = sz ! (length sz - 2);
            k = sz ! (length sz - 1);
            tensorial_size = take (length sz - 2) sz
        in if n \<noteq> k then Inl NonSquareError else Inr (n, tensorial_size))"

text \<open>
  \<^verbatim>\<open>Hurwitz.manifolds\<close>: the triple \<open>(PSD, PSD, Skew)\<close>, built in this order; an error of
  the first constructor that raises ends the call.
\<close>

definition manifolds :: "geotorch \<Rightarrow> nat \<Rightarrow> nat list \<Rightarrow> triv \<Rightarrow> error + manifold list" where
  "manifolds cls n tensorial_size triv =
     (let size_p = tensorial_size @ [n, n];
          size_q = tensorial_size @ [n, n]
      in case PSD cls size_q triv of
           Inl e \<Rightarrow> Inl e
         | Inr Mq \<Rightarrow>
             (case PSD cls size_p triv of
                Inl e \<Rightarrow> Inl e
              | Inr Mp \<Rightarrow> Inr [Mq, Mp, Skew cls]))"

text \<open>
  \<^verbatim>\<open>Hurwitz.__init__\<close>: the size is parsed first, the product of the three manifolds is
  built, and only then \<open>alpha\<close> is tested.
\<close>

definition Hurwitz :: "geotorch \<Rightarrow> nat list \<Rightarrow> real \<Rightarrow> triv \<Rightarrow> error + hurwitz" where
  "Hurwitz cls sz alpha triv =
     (case parse_size sz of
        Inl e \<Rightarrow> Inl e
      | Inr (n, tensorial_size) \<Rightarrow>
          (case manifolds cls n tensorial_size triv of
             Inl e \<Rightarrow> Inl e
           | Inr ms \<Rightarrow>
               if alpha \<le> 0 then Inl ValueError
               else Inr \<lparr>manifolds_of = ms, self_n = n, self_tensorial_size = tensorial_size,
                         self_alpha = alpha, self_In = eye n\<rparr>))"

section \<open>Tensor operations\<close>

text \<open>
  The torch operations the class uses, on tensors of at least two dimensions. The size of
  a result is computed as torch does for operands of equal batch shape or with one operand
  of no batch shape (the cached identity); the entries are computed per batch index. An
  operand without batch dimensions is read independently of the batch index.
\<close>

definition batch_of :: "nat list \<Rightarrow> nat list" where
  "batch_of sz = take (length sz - 2) sz"

definition nrows :: "nat list \<Rightarrow> nat" where
  "nrows sz = (case rev sz of c # r # rest \<Rightarrow> r | _ \<Rightarrow> 1)"

definition ncols :: "nat list \<Rightarrow> nat" where
  "ncols sz = (case rev sz of c # rest \<Rightarrow> c | _ \<Rightarrow> 1)"

definition broadcast :: "nat list \<Rightarrow> nat list \<Rightarrow> nat list" where
  "broadcast s1 s2 = (if length s2 \<le> length s1 then s1 else s2)"

text \<open>\<^verbatim>\<open>X @ Y\<close>\<close>

definition t_matmul :: "tensor \<Rightarrow> tensor \<Rightarrow> tensor" where
  "t_matmul X Y =
     \<lparr>size_of = batch_of (broadcast (size_of X) (size_of Y)) @ [nrows (size_of X), ncols (size_of Y)],
      mat_at = (\<lambda>b i j. \<Sum>k<ncols (size_of X). mat_at X b i k * mat_at Y b k j)\<rparr>"

text \<open>\<^verbatim>\<open>X + Y\<close>\<close>

definition t_add :: "tensor \<Rightarrow> tensor \<Rightarrow> tensor" where
  "t_add X Y =
     \<lparr>size_of = broadcast (size_of X) (size_of Y),
      mat_at = (\<lambda>b i j. mat_at X b i j + mat_at Y b i j)\<rparr>"

text \<open>\<^verbatim>\<open>X - Y\<close>\<close>

definition t_sub :: "tensor \<Rightarrow> tensor \<Rightarrow> tensor" where
  "t_sub X Y =
     \<lparr>size_of = broadcast (size_of X) (size_of Y),
      mat_at = (\<lambda>b i j. mat_at X b i j - mat_at Y b i j)\<rparr>"

text \<open>\<^verbatim>\<open>c * X\<close> for a number \<open>c\<close>\<close>

definition t_smul :: "real \<Rightarrow> tensor \<Rightarrow> tensor" where
  "t_smul c X = \<lparr>size_of = size_of X, mat_at = (\<lambda>b i j. c * mat_at X b i j)\<rparr>"

text \<open>\<^verbatim>\<open>X.transpose(-2, -1)\<close>\<close>

definition t_transpose :: "tensor \<Rightarrow> tensor" where
  "t_transpose X =
     \<lparr>size_of = batch_of (size_of X) @ [ncols (size_of X), nrows (size_of X)],
      mat_at = (\<lambda>b i j. mat_at X b j i)\<rparr>"

text \<open>All indices into a batch shape, in row-major order.\<close>

definition batch_indices :: "nat list \<Rightarrow> nat list list" where
  "batch_indices T = product_lists (map (\<lambda>d. [0..<d]) T)"

section \<open>The submersion\<close>

text \<open>\<^verbatim>\<open>Hurwitz.submersion\<close>: \<^verbatim>\<open>P @ (-0.5 * Q + S) - self.alpha * self.In\<close>\<close>

definition submersion :: "hurwitz \<Rightarrow> tensor \<Rightarrow> tensor \<Rightarrow> tensor \<Rightarrow> tensor" where
  "submersion h Q P S =
     t_sub (t_matmul P (t_add (t_smul (- (1 / 2)) Q) S)) (t_smul (self_alpha h) (self_In h))"

text \<open>
  Modelled from the spec: \<^verbatim>\<open>ProductManifold.forward\<close> (module \<^verbatim>\<open>geotorch/product.py\<close> is
  not among the sources). Positional dispatch: element \<open>i\<close> of the sequence is passed to
  the forward of sub-manifold \<open>i\<close>.
\<close>

definition ProductManifold_forward :: "manifold list \<Rightarrow> tensor list \<Rightarrow> tensor list" where
  "ProductManifold_forward ms Xs = map (\<lambda>(m, X). m_forward m X) (zip ms Xs)"

text \<open>
  Modelled from the spec: \<^verbatim>\<open>ProductManifold.right_inverse\<close>, the same positional
  dispatch over each sub-manifold's \<^verbatim>\<open>right_inverse(point, check_in_manifold)\<close>; the
  first sub-manifold that raises ends the call.
\<close>

fun ProductManifold_right_inverse ::
  "manifold list \<Rightarrow> tensor list \<Rightarrow> bool \<Rightarrow> error + tensor list" where
  "ProductManifold_right_inverse (m # ms) (X # Xs) check_in_manifold =
     (case m_right_inverse m X check_in_manifold of
        Inl e \<Rightarrow> Inl e
      | Inr Y \<Rightarrow>
          (case ProductManifold_right_inverse ms Xs check_in_manifold of
             Inl e \<Rightarrow> Inl e
           | Inr Ys \<Rightarrow> Inr (Y # Ys)))"
| "ProductManifold_right_inverse _ _ check_in_manifold = Inr []"

text \<open>
  \<^verbatim>\<open>Hurwitz.forward\<close>. Unpacking \<^verbatim>\<open>Q, P, S = ...\<close> raises \<^verbatim>\<open>ValueError\<close> when the product
  does not return three tensors.
\<close>

definition forward :: "hurwitz \<Rightarrow> tensor \<Rightarrow> tensor \<Rightarrow> tensor \<Rightarrow> error + tensor" where
  "forward h X1 X2 X3 =
     (case ProductManifold_forward (manifolds_of h) [X1, X2, X3] of
        [Q, P, S] \<Rightarrow> Inr (submersion h Q P S)
      | _ \<Rightarrow> Inl ValueError)"

section \<open>Sampling\<close>

text \<open>
  \<^verbatim>\<open>Hurwitz.sample\<close>. The initializer \<^verbatim>\<open>init_\<close> fills an empty tensor of the given size in
  place from its source of randomness: it maps the size and the state of the source to
  the entries and the next state. It is called three times, for \<open>X_p\<close>, \<open>X_q\<close> and \<open>X_s\<close>
  in this order.
\<close>

definition sample ::
  "hurwitz \<Rightarrow> (nat list \<Rightarrow> 'g \<Rightarrow> (nat list \<Rightarrow> rmat) \<times> 'g) \<Rightarrow> 'g \<Rightarrow> tensor \<times> 'g" where
  "sample h init g0 =
     (let sz = self_tensorial_size h @ [self_n h, self_n h];
          (xp, g1) = init sz g0;
          X_p = \<lparr>size_of = sz, mat_at = xp\<rparr>;
          (xq, g2) = init sz g1;
          X_q = \<lparr>size_of = sz, mat_at = xq\<rparr>;
          (xs, g3) = init sz g2;
          X_s = \<lparr>size_of = sz, mat_at = xs\<rparr>;
          P = t_matmul X_p (t_transpose X_p);
          Q = t_matmul X_q (t_transpose X_q);
          S = t_sub X_s (t_transpose X_s)
      in (t_sub (t_matmul P (t_add (t_smul (- (1 / 2)) Q) S)) (t_smul (self_alpha h) (self_In h)),
          g3))"

section \<open>External collaborators\<close>

text \<open>
  The semidefinite program handed to cvxpy: the variable \<^verbatim>\<open>Variable((nx, nx), "P", PSD=True)\<close>,
  the objective \<^verbatim>\<open>Minimize(...)\<close> and the list of constraints. An expression in the
  variable is a function of the variable's value; \<^verbatim>\<open>lhs << rhs\<close> and \<^verbatim>\<open>lhs >> rhs\<close> are
  the two kinds of constraint.
\<close>

datatype constraint =
    Lmi_le "rmat \<Rightarrow> rmat" "rmat \<Rightarrow> rmat"
  | Lmi_ge "rmat \<Rightarrow> rmat" "rmat \<Rightarrow> rmat"

record problem =
  var_dim :: nat
  var_PSD :: bool
  minimize :: "rmat \<Rightarrow> real"
  constraints :: "constraint list"

text \<open>
  What the libraries compute is a parameter of the model:
  \<^item> \<^verbatim>\<open>torch.linalg.eigvals\<close> on one \<open>n \<times> n\<close> matrix;
  \<^item> \<^verbatim>\<open>Problem.solve(solver)\<close>, which may raise, and otherwise leaves a status and the
    value of the variable (\<^verbatim>\<open>None\<close> when the solver found none); the solver has a
    state of its own, so that every call of it is visible;
  \<^item> \<^verbatim>\<open>torch.inverse\<close> on one \<open>n \<times> n\<close> matrix, which raises on a singular matrix.
\<close>

record 's env =
  torch_eigvals :: "nat \<Rightarrow> rmat \<Rightarrow> complex list"
  cvxpy_solve :: "string \<Rightarrow> problem \<Rightarrow> 's \<Rightarrow> (lib_error + string \<times> rmat option) \<times> 's"
  torch_inverse :: "nat \<Rightarrow> rmat \<Rightarrow> lib_error + rmat"

section \<open>The membership test\<close>

text \<open>
  \<^verbatim>\<open>torch.linalg.eigvals(A)\<close>: it raises on a tensor of fewer than two dimensions and on
  one whose last two dimensions differ; otherwise it returns the eigenvalues of every
  matrix of the batch.
\<close>

definition linalg_eigvals :: "'s env \<Rightarrow> tensor \<Rightarrow> error + complex list" where
  "linalg_eigvals env A =
     (let sz = size_of A in
      if length sz < 2 then Inl RuntimeError
      else if nrows sz \<noteq> ncols sz then Inl RuntimeError
      else Inr (concat (map (\<lambda>b. torch_eigvals env (ncols sz) (mat_at A b))
                            (batch_indices (batch_of sz)))))"

text \<open>\<^verbatim>\<open>Hurwitz.in_manifold_eigen\<close>; its default tolerance is \<^verbatim>\<open>eps=1e-6\<close>.\<close>

definition in_manifold_eigen :: "'s env \<Rightarrow> hurwitz \<Rightarrow> tensor \<Rightarrow> real \<Rightarrow> error + bool" where
  "in_manifold_eigen env h A eps =
     (if batch_of (size_of A) \<noteq> self_tensorial_size h then Inr False
      else
        (case linalg_eigvals env A of
           Inl e \<Rightarrow> Inl e
         | Inr eig \<Rightarrow>
             let reig = map Re eig
             in Inr (list_all (\<lambda>r. r \<le> - self_alpha h + eps) reig)))"

definition default_eps :: real where
  "default_eps = 1 / 10 ^ 6"

section \<open>The inverse submersion\<close>

text \<open>Matrices as numpy has them inside \<^verbatim>\<open>submersion_inv\<close>: \<open>nx \<times> nx\<close> arrays.\<close>

definition m_mul :: "nat \<Rightarrow> rmat \<Rightarrow> rmat \<Rightarrow> rmat" where
  "m_mul nx X Y = (\<lambda>i j. \<Sum>k<nx. X i k * Y k j)"

definition m_T :: "rmat \<Rightarrow> rmat" where
  "m_T X = (\<lambda>i j. X j i)"

definition m_add :: "rmat \<Rightarrow> rmat \<Rightarrow> rmat" where
  "m_add X Y = (\<lambda>i j. X i j + Y i j)"

definition m_sub :: "rmat \<Rightarrow> rmat \<Rightarrow> rmat" where
  "m_sub X Y = (\<lambda>i j. X i j - Y i j)"

definition m_smul :: "real \<Rightarrow> rmat \<Rightarrow> rmat" where
  "m_smul c X = (\<lambda>i j. c * X i j)"

definition m_eye :: rmat where
  "m_eye = (\<lambda>i j. if i = j then 1 else 0)"

definition m_zero :: rmat where
  "m_zero = (\<lambda>i j. 0)"

text \<open>\<^verbatim>\<open>Tensor(M)\<close> for an \<open>nx \<times> nx\<close> array \<open>M\<close>.\<close>

definition Tensor :: "nat \<Rightarrow> rmat \<Rightarrow> tensor" where
  "Tensor nx M = \<lparr>size_of = [nx, nx], mat_at = (\<lambda>b. M)\<rparr>"

text \<open>The expression \<^verbatim>\<open>A.T @ P + P @ A + 2 * self.alpha * P\<close> in the variable \<open>P\<close>.\<close>

definition lyapunov_expr :: "hurwitz \<Rightarrow> nat \<Rightarrow> rmat \<Rightarrow> rmat \<Rightarrow> rmat" where
  "lyapunov_expr h nx A P =
     m_add (m_add (m_mul nx (m_T A) P) (m_mul nx P A)) (m_smul (2 * self_alpha h) P)"

text \<open>The problem \<^verbatim>\<open>Problem(Minimize(0), constraints)\<close> that \<^verbatim>\<open>submersion_inv\<close> builds.\<close>

definition sdp_problem :: "hurwitz \<Rightarrow> nat \<Rightarrow> rmat \<Rightarrow> real \<Rightarrow> problem" where
  "sdp_problem h nx A epsilon =
     \<lparr>var_dim = nx, var_PSD = True, minimize = (\<lambda>P. 0),
      constraints =
        [Lmi_le (lyapunov_expr h nx A) (\<lambda>P. m_smul (- epsilon) m_eye),
         Lmi_ge (\<lambda>P. m_sub P (m_smul epsilon m_eye)) (\<lambda>P. m_zero)]\<rparr>"

text \<open>
  The body of \<^verbatim>\<open>submersion_inv\<close> under \<^verbatim>\<open>torch.no_grad()\<close>, for a matrix \<open>A\<close> (two equal
  dimensions and no batch dimension), the input this path is made for. What numpy and
  cvxpy do with a tensor of another shape is not modelled: there the model ends the call
  with a \<^verbatim>\<open>ValueError\<close> before any problem exists, and no statement below about a matrix
  rests on that branch. Printing the eigenvalues of \<^verbatim>\<open>P.value\<close> raises when the solver
  left no value.
\<close>

definition solve_and_recover ::
  "'s env \<Rightarrow> hurwitz \<Rightarrow> tensor \<Rightarrow> real \<Rightarrow> string \<Rightarrow> 's \<Rightarrow> (error + tensor \<times> tensor \<times> tensor) \<times> 's" where
  "solve_and_recover env h A epsilon solver st =
     (if size_of A \<noteq> [nrows (size_of A), nrows (size_of A)] then (Inl ValueError, st)
      else
        let nx = nrows (size_of A);
            Am = mat_at A [];
            prob = sdp_problem h nx Am epsilon;
            (res, st') = cvxpy_solve env solver prob st
        in (case res of
              Inl e \<Rightarrow> (Inl (raised e), st')
            | Inr (status, P_value) \<Rightarrow>
                if status \<in> set [''infeasible'', ''unbounded''] then (Inl ValueError, st')
                else
                  (case P_value of
                     None \<Rightarrow> (Inl LinAlgError, st')
                   | Some Pv \<Rightarrow>
                       (case torch_inverse env nx Pv of
                          Inl e \<Rightarrow> (Inl (raised e), st')
                        | Inr P_inv \<Rightarrow>
                            let Q = m_smul (- 1) (lyapunov_expr h nx Am Pv);
                                S = m_add (m_add (m_mul nx Pv Am) (m_smul (1 / 2) Q))
                                          (m_smul (self_alpha h) Pv)
                            in (Inr (Tensor nx Q, Tensor nx P_inv, Tensor nx S), st')))))"

text \<open>
  \<^verbatim>\<open>Hurwitz.submersion_inv(A, check_in_manifold, epsilon, solver)\<close>; the defaults of its
  last two arguments are \<^verbatim>\<open>epsilon=1e-8\<close> and \<^verbatim>\<open>solver="MOSEK"\<close>.
\<close>

definition submersion_inv ::
  "'s env \<Rightarrow> hurwitz \<Rightarrow> tensor \<Rightarrow> bool \<Rightarrow> real \<Rightarrow> string \<Rightarrow> 's \<Rightarrow> (error + tensor \<times> tensor \<times> tensor) \<times> 's" where
  "submersion_inv env h A check_in_manifold epsilon solver st =
     (if check_in_manifold then
        (case in_manifold_eigen env h A epsilon of
           Inl e \<Rightarrow> (Inl e, st)
         | Inr ok \<Rightarrow>
             if \<not> ok then (Inl InManifoldError, st)
             else solve_and_recover env h A epsilon solver st)
      else solve_and_recover env h A epsilon solver st)"

definition default_epsilon :: real where
  "default_epsilon = 1 / 10 ^ 8"

definition default_solver :: string where
  "default_solver = ''MOSEK''"

text \<open>
  \<^verbatim>\<open>Hurwitz.right_inverse(A, check_in_manifold)\<close>: it calls \<^verbatim>\<open>submersion_inv\<close> with the
  defaults of \<open>epsilon\<close> and \<open>solver\<close>, and the product's \<^verbatim>\<open>right_inverse\<close> with the
  default of its flag.
\<close>

definition right_inverse ::
  "'s env \<Rightarrow> hurwitz \<Rightarrow> tensor \<Rightarrow> bool \<Rightarrow> 's \<Rightarrow> (error + tensor \<times> tensor \<times> tensor) \<times> 's" where
  "right_inverse env h A check_in_manifold st =
     (case submersion_inv env h A check_in_manifold default_epsilon default_solver st of
        (Inl e, st') \<Rightarrow> (Inl e, st')
      | (Inr (Q, P, S), st') \<Rightarrow>
          (case ProductManifold_right_inverse (manifolds_of h) [Q, P, S] True of
             Inl e \<Rightarrow> (Inl e, st')
           | Inr [X1, X2, X3] \<Rightarrow> (Inr (X1, X2, X3), st')
           | Inr _ \<Rightarrow> (Inl ValueError, st')))"

section \<open>Floating-point arithmetic\<close>

text \<open>
  The definitions above are the program over the real numbers: its arithmetic without
  rounding. The program itself computes with floating-point numbers: a tensor of torch
  holds binary32 numbers unless it is told otherwise (\<^verbatim>\<open>torch.empty\<close>, \<^verbatim>\<open>torch.eye\<close>), and
  a \<^verbatim>\<open>float\<close> of Python (\<open>alpha\<close>, \<open>eps\<close>) is a binary64 number.

  \<open>round_binary p emin emax\<close> rounds a real number to the nearest number of the binary
  format with \<open>p\<close> significant bits and exponents from \<open>emin\<close> to \<open>emax\<close>, a tie to the one
  with the even significand; below \<open>2 ^ emin\<close> the numbers of the format are the
  multiples of \<open>2 ^ (emin - p + 1)\<close>. The infinities of the format have no counterpart
  among the real numbers: above the largest number of the format the rounding keeps the
  spacing of the exponent \<open>emax\<close>.
\<close>

definition pow2 :: "int \<Rightarrow> real" where
  "pow2 e = (if 0 \<le> e then 2 ^ nat e else 1 / 2 ^ nat (- e))"

function expo_up :: "int \<Rightarrow> real \<Rightarrow> int \<Rightarrow> int" where
  "expo_up emax x e = (if e < emax \<and> pow2 (e + 1) \<le> x then expo_up emax x (e + 1) else e)"
  by pat_completeness auto
termination
  by (relation "measure (\<lambda>(emax, x, e). nat (emax - e))") auto

function expo_down :: "int \<Rightarrow> real \<Rightarrow> int \<Rightarrow> int" where
  "expo_down emin x e = (if emin < e \<and> x < pow2 e then expo_down emin x (e - 1) else e)"
  by pat_completeness auto
termination
  by (relation "measure (\<lambda>(emin, x, e). nat (e - emin))") auto

declare expo_up.simps [simp del]

declare expo_down.simps [simp del]

text \<open>The exponent \<open>e\<close> of \<open>x\<close>: \<open>2 ^ e \<le> \<bar>x\<bar> < 2 ^ (e + 1)\<close>, kept between \<open>emin\<close> and \<open>emax\<close>.\<close>

definition exponent_of :: "int \<Rightarrow> int \<Rightarrow> real \<Rightarrow> int" where
  "exponent_of emin emax x =
     (if 1 \<le> \<bar>x\<bar> then expo_up emax \<bar>x\<bar> 0 else expo_down emin \<bar>x\<bar> (- 1))"

definition round_half_even :: "real \<Rightarrow> int" where
  "round_half_even r =
     (let f = \<lfloor>r\<rfloor>;
          d = r - of_int f
      in if d < 1 / 2 then f
         else if 1 / 2 < d then f + 1
         else if even f then f else f + 1)"

definition round_binary :: "nat \<Rightarrow> int \<Rightarrow> int \<Rightarrow> real \<Rightarrow> real" where
  "round_binary p emin emax x =
     (let u = pow2 (exponent_of emin emax x - (int p - 1))
      in of_int (round_half_even (x / u)) * u)"

definition float32 :: "real \<Rightarrow> real" where
  "float32 = round_binary 24 (- 126) 127"

definition float64 :: "real \<Rightarrow> real" where
  "float64 = round_binary 53 (- 1022) 1023"

text \<open>
  An arithmetic: how a \<^verbatim>\<open>float\<close> of Python and how an entry of a tensor is rounded.
  \<open>exact\<close> rounds nothing; \<open>torch_default\<close> is the arithmetic of the program as it is
  run.
\<close>

record arithmetic =
  py_round :: "real \<Rightarrow> real"
  dtype_round :: "real \<Rightarrow> real"

definition exact :: arithmetic where
  "exact = \<lparr>py_round = (\<lambda>x. x), dtype_round = (\<lambda>x. x)\<rparr>"

definition torch_default :: arithmetic where
  "torch_default = \<lparr>py_round = float64, dtype_round = float32\<rparr>"

text \<open>
  A tensor operation in an arithmetic returns the entries of the operation over the real
  numbers, each rounded once. A kernel of torch may round more often (a matrix product
  rounds partial sums as well); the two agree wherever every intermediate result is a
  number of the format, as in the runs below.
\<close>

definition t_round :: "(real \<Rightarrow> real) \<Rightarrow> tensor \<Rightarrow> tensor" where
  "t_round f X = \<lparr>size_of = size_of X, mat_at = (\<lambda>b i j. f (mat_at X b i j))\<rparr>"

text \<open>
  \<^verbatim>\<open>Hurwitz.submersion\<close>, \<^verbatim>\<open>Hurwitz.forward\<close>, \<^verbatim>\<open>Hurwitz.sample\<close> and
  \<^verbatim>\<open>Hurwitz.in_manifold_eigen\<close> in an arithmetic: every tensor operation rounds its
  result, \<open>alpha\<close> and \<open>eps\<close> are floats of Python, the sum \<^verbatim>\<open>-self.alpha + eps\<close> is
  computed by Python and then compared with the entries of a tensor, for which torch
  converts it to the type of these entries. The initializer writes into a tensor, whose
  entries are numbers of its type.
\<close>

definition submersion_fl :: "arithmetic \<Rightarrow> hurwitz \<Rightarrow> tensor \<Rightarrow> tensor \<Rightarrow> tensor \<Rightarrow> tensor" where
  "submersion_fl ar h Q P S =
     (let r = t_round (dtype_round ar);
          a = py_round ar (self_alpha h)
      in r (t_sub (r (t_matmul P (r (t_add (r (t_smul (- (1 / 2)) Q)) S))))
                  (r (t_smul a (self_In h)))))"

definition forward_fl :: "arithmetic \<Rightarrow> hurwitz \<Rightarrow> tensor \<Rightarrow> tensor \<Rightarrow> tensor \<Rightarrow> error + tensor" where
  "forward_fl ar h X1 X2 X3 =
     (case ProductManifold_forward (manifolds_of h) [X1, X2, X3] of
        [Q, P, S] \<Rightarrow> Inr (submersion_fl ar h Q P S)
      | _ \<Rightarrow> Inl ValueError)"

definition sample_fl ::
  "arithmetic \<Rightarrow> hurwitz \<Rightarrow> (nat list \<Rightarrow> 'g \<Rightarrow> (nat list \<Rightarrow> rmat) \<times> 'g) \<Rightarrow> 'g \<Rightarrow> tensor \<times> 'g" where
  "sample_fl ar h init g0 =
     (let r = t_round (dtype_round ar);
          a = py_round ar (self_alpha h);
          sz = self_tensorial_size h @ [self_n h, self_n h];
          (xp, g1) = init sz g0;
          X_p = r \<lparr>size_of = sz, mat_at = xp\<rparr>;
          (xq, g2) = init sz g1;
          X_q = r \<lparr>size_of = sz, mat_at = xq\<rparr>;
          (xs, g3) = init sz g2;
          X_s = r \<lparr>size_of = sz, mat_at = xs\<rparr>;
          P = r (t_matmul X_p (t_transpose X_p));
          Q = r (t_matmul X_q (t_transpose X_q));
          S = r (t_sub X_s (t_transpose X_s))
      in (r (t_sub (r (t_matmul P (r (t_add (r (t_smul (- (1 / 2)) Q)) S))))
                   (r (t_smul a (self_In h)))),
          g3))"

definition in_manifold_eigen_fl ::
  "arithmetic \<Rightarrow> 's env \<Rightarrow> hurwitz \<Rightarrow> tensor \<Rightarrow> real \<Rightarrow> error + bool" where
  "in_manifold_eigen_fl ar env h A eps =
     (if batch_of (size_of A) \<noteq> self_tensorial_size h then Inr False
      else
        (case linalg_eigvals env A of
           Inl e \<Rightarrow> Inl e
         | Inr eig \<Rightarrow>
             let reig = map Re eig;
                 bound = py_round ar (- py_round ar (self_alpha h) + py_round ar eps)
             in Inr (list_all (\<lambda>r. r \<le> dtype_round ar bound) reig)))"

section \<open>Notions the claims speak of\<close>

text \<open>
  The quadratic form \<open>x\<^sup>T M x\<close> of an \<open>n \<times> n\<close> matrix, symmetric, skew-symmetric and
  positive semidefinite matrices, and the eigenvalues of a real matrix: the complex
  numbers \<open>ev\<close> with \<open>M v = ev v\<close> for a complex vector \<open>v \<noteq> 0\<close>.
\<close>

definition quad :: "nat \<Rightarrow> rmat \<Rightarrow> (nat \<Rightarrow> real) \<Rightarrow> real" where
  "quad n M x = (\<Sum>i<n. \<Sum>j<n. x i * M i j * x j)"

definition dot :: "nat \<Rightarrow> (nat \<Rightarrow> real) \<Rightarrow> (nat \<Rightarrow> real) \<Rightarrow> real" where
  "dot n x y = (\<Sum>i<n. x i * y i)"

definition mv :: "nat \<Rightarrow> rmat \<Rightarrow> (nat \<Rightarrow> real) \<Rightarrow> nat \<Rightarrow> real" where
  "mv n M x = (\<lambda>i. \<Sum>j<n. M i j * x j)"

definition is_symmetric :: "nat \<Rightarrow> rmat \<Rightarrow> bool" where
  "is_symmetric n M = (\<forall>i<n. \<forall>j<n. M i j = M j i)"

definition is_skew :: "nat \<Rightarrow> rmat \<Rightarrow> bool" where
  "is_skew n M = (\<forall>i<n. \<forall>j<n. M i j = - M j i)"

definition is_psd :: "nat \<Rightarrow> rmat \<Rightarrow> bool" where
  "is_psd n M = (is_symmetric n M \<and> (\<forall>x. 0 \<le> quad n M x))"

definition is_eigenvalue :: "nat \<Rightarrow> rmat \<Rightarrow> complex \<Rightarrow> bool" where
  "is_eigenvalue n M ev =
     (\<exists>v. (\<exists>i<n. v i \<noteq> 0) \<and> (\<forall>i<n. (\<Sum>j<n. complex_of_real (M i j) * v j) = ev * v i))"

text \<open>
  The eigenvalue routine is right on a tensor when every number it returns for a matrix
  of the batch is an eigenvalue of that matrix.
\<close>

definition eigvals_sound :: "'s env \<Rightarrow> tensor \<Rightarrow> bool" where
  "eigvals_sound env A =
     (\<forall>b\<in>set (batch_indices (batch_of (size_of A))).
        \<forall>ev\<in>set (torch_eigvals env (ncols (size_of A)) (mat_at A b)).
          is_eigenvalue (ncols (size_of A)) (mat_at A b) ev)"

text \<open>
  The eigenvalue routine is exact on a tensor when the numbers it returns for a matrix of
  the batch are the eigenvalues of that matrix, all of them.
\<close>

definition eigvals_exact :: "'s env \<Rightarrow> tensor \<Rightarrow> bool" where
  "eigvals_exact env A =
     (\<forall>b\<in>set (batch_indices (batch_of (size_of A))).
        set (torch_eigvals env (ncols (size_of A)) (mat_at A b)) =
          {ev. is_eigenvalue (ncols (size_of A)) (mat_at A b) ev})"

text \<open>
  What a constraint of the program asks of a value \<open>P\<close> of the variable: \<^verbatim>\<open>lhs << rhs\<close>
  that \<open>rhs - lhs\<close> is positive semidefinite, \<^verbatim>\<open>lhs >> rhs\<close> that \<open>lhs - rhs\<close> is, both read
  on the quadratic form. A variable declared \<^verbatim>\<open>PSD=True\<close> is symmetric positive
  semidefinite.
\<close>

fun satisfies :: "nat \<Rightarrow> rmat \<Rightarrow> constraint \<Rightarrow> bool" where
  "satisfies n P (Lmi_le l r) = (\<forall>x. quad n (m_sub (l P) (r P)) x \<le> 0)"
| "satisfies n P (Lmi_ge l r) = (\<forall>x. 0 \<le> quad n (m_sub (l P) (r P)) x)"

definition feasible :: "problem \<Rightarrow> rmat \<Rightarrow> bool" where
  "feasible prob P =
     ((var_PSD prob \<longrightarrow> is_psd (var_dim prob) P) \<and>
      list_all (satisfies (var_dim prob) P) (constraints prob))"

section \<open>Sample instances\<close>

text \<open>
  Concrete manifolds, used to run the class on concrete inputs: the manifold that leaves
  its argument as it is, one whose forward is \<open>X X\<^sup>T\<close> (a positive semidefinite matrix),
  one whose forward is \<open>X - X\<^sup>T\<close> (a skew-symmetric matrix).
\<close>

definition plain_manifold :: manifold where
  "plain_manifold = \<lparr>m_forward = (\<lambda>X. X), m_right_inverse = (\<lambda>X check_in_manifold. Inr X)\<rparr>"

definition gram_manifold :: manifold where
  "gram_manifold =
     \<lparr>m_forward = (\<lambda>X. t_matmul X (t_transpose X)),
      m_right_inverse = (\<lambda>X check_in_manifold. Inr X)\<rparr>"

definition antisym_manifold :: manifold where
  "antisym_manifold =
     \<lparr>m_forward = (\<lambda>X. t_sub X (t_transpose X)),
      m_right_inverse = (\<lambda>X check_in_manifold. Inr X)\<rparr>"

definition sample_classes :: geotorch where
  "sample_classes = \<lparr>PSD = (\<lambda>sz triv. Inr gram_manifold), Skew = antisym_manifold\<rparr>"

definition plain_classes :: geotorch where
  "plain_classes = \<lparr>PSD = (\<lambda>sz triv. Inr plain_manifold), Skew = plain_manifold\<rparr>"

text \<open>
  Modelled from the spec: the guards of the constructor of the class \<^verbatim>\<open>PSD\<close>, which is
  not among the sources. An unrecognized name of a retraction is a \<^verbatim>\<open>ValueError\<close>; the
  rank of a \<^verbatim>\<open>PSD\<close> manifold is the dimension \<open>n\<close> of its matrices, and a rank has to be
  at least one (\<^verbatim>\<open>test_positive_semidefinite_fixed_trace_errors\<close>), else it is a
  \<^verbatim>\<open>RankError\<close>.
\<close>

definition guarded_PSD :: "nat list \<Rightarrow> triv \<Rightarrow> error + manifold" where
  "guarded_PSD sz triv =
     (if ncols sz < 1 then Inl RankError
      else
        (case triv of
           Name s \<Rightarrow> if s \<in> set [''expm'', ''cayley''] then Inr gram_manifold else Inl ValueError
         | Callable f \<Rightarrow> Inr gram_manifold))"

definition guarded_classes :: geotorch where
  "guarded_classes = \<lparr>PSD = guarded_PSD, Skew = antisym_manifold\<rparr>"

text \<open>A matrix given by its rows.\<close>

definition of_rows :: "real list list \<Rightarrow> rmat" where
  "of_rows rs = (\<lambda>i j. if i < length rs \<and> j < length (rs ! i) then rs ! i ! j else 0)"

text \<open>
  Concrete libraries, exact on the matrices they are run on here: the eigenvalues of a
  triangular matrix are its diagonal entries, the inverse of a diagonal matrix is the
  diagonal matrix of the inverses, and a solver that records every call (the name of the
  solver and the problem), raises \<^verbatim>\<open>SolverError\<close> when the named solver is not installed
  and otherwise gives a fixed answer.
\<close>

definition triangular_eigvals :: "nat \<Rightarrow> rmat \<Rightarrow> complex list" where
  "triangular_eigvals n M = map (\<lambda>i. complex_of_real (M i i)) [0..<n]"

definition diagonal_inverse :: "nat \<Rightarrow> rmat \<Rightarrow> lib_error + rmat" where
  "diagonal_inverse n M =
     (if list_ex (\<lambda>i. M i i = 0) [0..<n] then Inl Lib_LinAlgError
      else Inr (\<lambda>i j. if i = j then 1 / M i i else 0))"

definition recording_solver ::
  "string list \<Rightarrow> lib_error + string \<times> rmat option \<Rightarrow> string \<Rightarrow> problem \<Rightarrow>
     (string \<times> problem) list \<Rightarrow> (lib_error + string \<times> rmat option) \<times> (string \<times> problem) list" where
  "recording_solver installed answer name prob calls =
     (if name \<in> set installed then answer else Inl Lib_SolverError, calls @ [(name, prob)])"

definition sample_env ::
  "string list \<Rightarrow> lib_error + string \<times> rmat option \<Rightarrow> (string \<times> problem) list env" where
  "sample_env installed answer =
     \<lparr>torch_eigvals = triangular_eigvals, cvxpy_solve = recording_solver installed answer,
      torch_inverse = diagonal_inverse\<rparr>"

text \<open>
  The eigenvalues of a \<open>2 \<times> 2\<close> matrix with the rows \<open>(a, b)\<close> and \<open>(b, a)\<close> are \<open>a + b\<close> and
  \<open>a - b\<close>: a routine that is exact on these matrices.
\<close>

definition bisymmetric_eigvals :: "nat \<Rightarrow> rmat \<Rightarrow> complex list" where
  "bisymmetric_eigvals n M = [complex_of_real (M 0 0 + M 0 1), complex_of_real (M 0 0 - M 0 1)]"

definition bisymmetric_env :: "(string \<times> problem) list env" where
  "bisymmetric_env =
     \<lparr>torch_eigvals = bisymmetric_eigvals, cvxpy_solve = recording_solver [] (Inl Lib_SolverError),
      torch_inverse = diagonal_inverse\<rparr>"

text \<open>
  A manifold of matrices without batch dimensions that checks its points when it is asked
  to: its \<^verbatim>\<open>right_inverse\<close> raises \<^verbatim>\<open>InManifoldError\<close> on a matrix with a diagonal entry
  below the tolerance \<open>tol\<close>.
\<close>

definition checking_manifold :: "real \<Rightarrow> manifold" where
  "checking_manifold tol =
     \<lparr>m_forward = (\<lambda>X. X),
      m_right_inverse = (\<lambda>X check_in_manifold.
         if check_in_manifold \<and> list_ex (\<lambda>i. mat_at X [] i i < tol) [0..<ncols (size_of X)]
         then Inl InManifoldError else Inr X)\<rparr>"

text \<open>
  An initializer that hands out the entries of a given list of tensors, one per call; its
  state counts the calls.
\<close>

definition listed_init :: "(nat list \<Rightarrow> rmat) list \<Rightarrow> nat list \<Rightarrow> nat \<Rightarrow> (nat list \<Rightarrow> rmat) \<times> nat" where
  "listed_init xs sz g = (if g < length xs then xs ! g else (\<lambda>b. m_zero), Suc g)"

text \<open>The instance \<^verbatim>\<open>Hurwitz((n, n), alpha)\<close> over the sample classes.\<close>

definition sample_instance :: "nat \<Rightarrow> real \<Rightarrow> hurwitz" where
  "sample_instance n alpha =
     \<lparr>manifolds_of = [gram_manifold, gram_manifold, antisym_manifold], self_n = n,
      self_tensorial_size = [], self_alpha = alpha, self_In = eye n\<rparr>"

text \<open>
  The instance \<^verbatim>\<open>Hurwitz((n, n), alpha)\<close> over two checking manifolds with the tolerance
  \<open>1e-6\<close> and a manifold that changes nothing.
\<close>

definition checking_instance :: "nat \<Rightarrow> real \<Rightarrow> hurwitz" where
  "checking_instance n alpha =
     \<lparr>manifolds_of = [checking_manifold (1 / 10 ^ 6), checking_manifold (1 / 10 ^ 6), plain_manifold],
      self_n = n, self_tensorial_size = [], self_alpha = alpha, self_In = eye n\<rparr>"

text \<open>The instance \<^verbatim>\<open>Hurwitz((n, n), alpha)\<close> over the manifolds that change nothing.\<close>

definition plain_instance :: "nat \<Rightarrow> real \<Rightarrow> hurwitz" where
  "plain_instance n alpha =
     \<lparr>manifolds_of = [plain_manifold, plain_manifold, plain_manifold], self_n = n,
      self_tensorial_size = [], self_alpha = alpha, self_In = eye n\<rparr>"

section \<open>Shapes\<close>

lemma last_two_split:
  assumes "2 \<le> length sz"
  shows "sz = take (length sz - 2) sz @ [sz ! (length sz - 2), sz ! (length sz - 1)]"
proof -
  obtain m where m: "length sz = Suc (Suc m)"
    using assms by (metis Suc_le_D numeral_2_eq_2 Suc_le_mono)
  have "drop m sz = sz ! m # drop (Suc m) sz"
    using Cons_nth_drop_Suc [of m sz] m by simp
  moreover have "drop (Suc m) sz = sz ! Suc m # drop (Suc (Suc m)) sz"
    using Cons_nth_drop_Suc [of "Suc m" sz] m by simp
  ultimately have "drop m sz = [sz ! m, sz ! Suc m]"
    using m by simp
  then have "take m sz @ [sz ! m, sz ! Suc m] = sz"
    by (metis append_take_drop_id)
  then show ?thesis using m by simp
qed

lemma batch_of_append [simp]: "batch_of (T @ [r, c]) = T"
  by (simp add: batch_of_def)

lemma nrows_append [simp]: "nrows (T @ [r, c]) = r"
  by (simp add: nrows_def)

lemma ncols_append [simp]: "ncols (T @ [r, c]) = c"
  by (simp add: ncols_def)

lemma broadcast_same [simp]: "broadcast s s = s"
  by (simp add: broadcast_def)

lemma broadcast_matrix [simp]: "broadcast (T @ [r, c]) [r', c'] = T @ [r, c]"
  by (simp add: broadcast_def)

lemma nrows_ncols_of_size:
  assumes "2 \<le> length sz"
  shows "nrows sz = sz ! (length sz - 2)" and "ncols sz = sz ! (length sz - 1)"
proof -
  obtain T r c where e: "sz = T @ [r, c]"
    using last_two_split [OF assms] by blast
  show "nrows sz = sz ! (length sz - 2)"
    by (simp add: e nth_append)
  show "ncols sz = sz ! (length sz - 1)"
    by (simp add: e nth_append)
qed

section \<open>The constructor\<close>

lemma square_size:
  assumes "2 \<le> length sz" and "sz ! (length sz - 2) = sz ! (length sz - 1)"
  shows "take (length sz - 2) sz @ [sz ! (length sz - 2), sz ! (length sz - 2)] = sz"
  using last_two_split [OF assms(1)] assms(2) by simp

lemma Hurwitz_square:
  assumes "2 \<le> length sz" and "sz ! (length sz - 2) = sz ! (length sz - 1)"
  shows "Hurwitz cls sz alpha triv =
     (case PSD cls sz triv of
        Inl e \<Rightarrow> Inl e
      | Inr M \<Rightarrow>
          if alpha \<le> 0 then Inl ValueError
          else Inr \<lparr>manifolds_of = [M, M, Skew cls], self_n = sz ! (length sz - 2),
                    self_tensorial_size = take (length sz - 2) sz, self_alpha = alpha,
                    self_In = eye (sz ! (length sz - 2))\<rparr>)"
proof -
  have p: "parse_size sz = Inr (sz ! (length sz - 2), take (length sz - 2) sz)"
    using assms by (simp add: parse_size_def Let_def)
  show ?thesis
    by (simp add: Hurwitz_def p manifolds_def Let_def square_size [OF assms] split: sum.splits)
qed

lemma Hurwitz_Inr:
  assumes "Hurwitz cls sz alpha triv = Inr h"
  shows "2 \<le> length sz" and "sz = self_tensorial_size h @ [self_n h, self_n h]"
    and "self_alpha h = alpha" and "0 < alpha" and "self_In h = eye (self_n h)"
    and "\<exists>M. PSD cls sz triv = Inr M \<and> manifolds_of h = [M, M, Skew cls]"
proof -
  show len: "2 \<le> length sz"
    using assms by (auto simp: Hurwitz_def parse_size_def split: if_splits)
  have sq: "sz ! (length sz - 2) = sz ! (length sz - 1)"
    using assms by (auto simp: Hurwitz_def parse_size_def Let_def split: if_splits)
  note H = assms [unfolded Hurwitz_square [OF len sq]]
  obtain M where M: "PSD cls sz triv = Inr M"
    using H by (cases "PSD cls sz triv") simp_all
  have pos: "\<not> alpha \<le> 0"
    using H M by (auto split: if_splits)
  then show "0 < alpha" by simp
  have h: "h = \<lparr>manifolds_of = [M, M, Skew cls], self_n = sz ! (length sz - 2),
                 self_tensorial_size = take (length sz - 2) sz, self_alpha = alpha,
                 self_In = eye (sz ! (length sz - 2))\<rparr>"
    using H M pos by simp
  show "sz = self_tensorial_size h @ [self_n h, self_n h]"
    using square_size [OF len sq] by (simp add: h)
  show "self_alpha h = alpha" by (simp add: h)
  show "self_In h = eye (self_n h)" by (simp add: h)
  show "\<exists>M. PSD cls sz triv = Inr M \<and> manifolds_of h = [M, M, Skew cls]"
    using M by (simp add: h)
qed

lemma Hurwitz_manifolds:
  assumes "Hurwitz cls sz alpha triv = Inr h" and "PSD cls sz triv = Inr M"
  shows "manifolds_of h = [M, M, Skew cls]"
  using Hurwitz_Inr(6) [OF assms(1)] assms(2) by auto

text \<open>
  Claim C7, as amended. The constructor raises \<^verbatim>\<open>VectorError\<close> on a size of fewer than two
  dimensions and \<^verbatim>\<open>NonSquareError\<close> on a size whose last two dimensions differ. On a
  square size of at least two dimensions it builds the \<^verbatim>\<open>PSD\<close> manifolds first: an error
  of the \<^verbatim>\<open>PSD\<close> constructor on this size and this \<open>triv\<close> is the error of the call,
  whatever \<open>alpha\<close> is. When the \<^verbatim>\<open>PSD\<close> constructor returns, the call raises
  \<^verbatim>\<open>ValueError\<close> for \<open>alpha \<le> 0\<close>, and for \<open>0 < alpha\<close> it returns the instance that holds
  the dimension, the batch shape, \<open>alpha\<close>, the identity and the three sub-manifolds. So
  the call fails for every \<open>alpha \<le> 0\<close>, with a \<^verbatim>\<open>ValueError\<close> when the errors of the
  \<^verbatim>\<open>PSD\<close> constructor are \<^verbatim>\<open>ValueError\<close>s.
\<close>

theorem Hurwitz_construction_contract:
  "(length sz < 2 \<longrightarrow> Hurwitz cls sz alpha triv = Inl VectorError) \<and>
   (2 \<le> length sz \<and> sz ! (length sz - 2) \<noteq> sz ! (length sz - 1) \<longrightarrow>
      Hurwitz cls sz alpha triv = Inl NonSquareError) \<and>
   (2 \<le> length sz \<and> sz ! (length sz - 2) = sz ! (length sz - 1) \<and> PSD cls sz triv = Inl e \<longrightarrow>
      Hurwitz cls sz alpha triv = Inl e) \<and>
   (2 \<le> length sz \<and> sz ! (length sz - 2) = sz ! (length sz - 1) \<and> PSD cls sz triv = Inr M \<and>
      alpha \<le> 0 \<longrightarrow>
      Hurwitz cls sz alpha triv = Inl ValueError) \<and>
   (2 \<le> length sz \<and> sz ! (length sz - 2) = sz ! (length sz - 1) \<and> PSD cls sz triv = Inr M \<and>
      0 < alpha \<longrightarrow>
      Hurwitz cls sz alpha triv =
        Inr \<lparr>manifolds_of = [M, M, Skew cls], self_n = sz ! (length sz - 1),
             self_tensorial_size = take (length sz - 2) sz, self_alpha = alpha,
             self_In = eye (sz ! (length sz - 1))\<rparr>) \<and>
   (alpha \<le> 0 \<longrightarrow> (\<exists>e'. Hurwitz cls sz alpha triv = Inl e')) \<and>
   (alpha \<le> 0 \<and> (\<forall>e'. PSD cls sz triv = Inl e' \<longrightarrow> is_ValueError e') \<longrightarrow>
      (\<exists>e'. Hurwitz cls sz alpha triv = Inl e' \<and> is_ValueError e'))"
proof -
  have 1: "Hurwitz cls sz alpha triv = Inl VectorError" if "length sz < 2"
    using that by (simp add: Hurwitz_def parse_size_def)
  have 2: "Hurwitz cls sz alpha triv = Inl NonSquareError"
    if "2 \<le> length sz \<and> sz ! (length sz - 2) \<noteq> sz ! (length sz - 1)"
    using that by (simp add: Hurwitz_def parse_size_def Let_def)
  have 3: "Hurwitz cls sz alpha triv = Inl e"
    if "2 \<le> length sz \<and> sz ! (length sz - 2) = sz ! (length sz - 1) \<and> PSD cls sz triv = Inl e"
    using that by (simp add: Hurwitz_square)
  have 4: "Hurwitz cls sz alpha triv = Inl ValueError"
    if "2 \<le> length sz \<and> sz ! (length sz - 2) = sz ! (length sz - 1) \<and> PSD cls sz triv = Inr M \<and>
        alpha \<le> 0"
    using that by (simp add: Hurwitz_square)
  have 5: "Hurwitz cls sz alpha triv =
        Inr \<lparr>manifolds_of = [M, M, Skew cls], self_n = sz ! (length sz - 1),
             self_tensorial_size = take (length sz - 2) sz, self_alpha = alpha,
             self_In = eye (sz ! (length sz - 1))\<rparr>"
    if "2 \<le> length sz \<and> sz ! (length sz - 2) = sz ! (length sz - 1) \<and> PSD cls sz triv = Inr M \<and>
        0 < alpha"
    using that by (simp add: Hurwitz_square)
  have 6: "\<exists>e'. Hurwitz cls sz alpha triv = Inl e'" if "alpha \<le> 0"
  proof (cases "Hurwitz cls sz alpha triv")
    case (Inl e')
    then show ?thesis by simp
  next
    case (Inr h)
    from Hurwitz_Inr(4) [OF Inr] that show ?thesis by simp
  qed
  have 7: "\<exists>e'. Hurwitz cls sz alpha triv = Inl e' \<and> is_ValueError e'"
    if a: "alpha \<le> 0 \<and> (\<forall>e'. PSD cls sz triv = Inl e' \<longrightarrow> is_ValueError e')"
  proof -
    consider "length sz < 2"
      | "2 \<le> length sz" "sz ! (length sz - 2) \<noteq> sz ! (length sz - 1)"
      | "2 \<le> length sz" "sz ! (length sz - 2) = sz ! (length sz - 1)"
      by linarith
    then show ?thesis
    proof cases
      case 1
      then show ?thesis by (simp add: Hurwitz_def parse_size_def)
    next
      case 2
      then show ?thesis by (simp add: Hurwitz_def parse_size_def Let_def)
    next
      case 3
      show ?thesis
        using a by (cases "PSD cls sz triv") (simp_all add: Hurwitz_square [OF 3])
    qed
  qed
  show ?thesis using 1 2 3 4 5 6 7 by blast
qed

theorem Hurwitz_construction_contract_witness:
  "Hurwitz guarded_classes [4, 4] (- 2) (Name ''expm'') = Inl ValueError \<and>
   Hurwitz guarded_classes [3, 3] 0 (Name ''expm'') = Inl ValueError \<and>
   Hurwitz guarded_classes [3, 6] 2 (Name ''expm'') = Inl NonSquareError \<and>
   Hurwitz guarded_classes [5] 1 (Name ''expm'') = Inl VectorError \<and>
   Hurwitz guarded_classes [0, 0] (- 1) (Name ''expm'') = Inl RankError \<and>
   Hurwitz guarded_classes [4, 4] (1 / 10 ^ 4) (Name ''expm'') =
     Inr \<lparr>manifolds_of = [gram_manifold, gram_manifold, antisym_manifold], self_n = 4,
          self_tensorial_size = [], self_alpha = 1 / 10 ^ 4, self_In = eye 4\<rparr>"
proof -
  have p: "PSD guarded_classes [4, 4] (Name ''expm'') = Inr gram_manifold"
    "PSD guarded_classes [3, 3] (Name ''expm'') = Inr gram_manifold"
    "PSD guarded_classes [0, 0] (Name ''expm'') = Inl RankError"
    "Skew guarded_classes = antisym_manifold"
    by (simp_all add: guarded_classes_def guarded_PSD_def ncols_def)
  have 1: "Hurwitz guarded_classes [4, 4] (- 2) (Name ''expm'') = Inl ValueError"
    using Hurwitz_construction_contract
      [of "[4, 4]" guarded_classes "- 2" "Name ''expm''" _ gram_manifold] p
    by simp
  have 2: "Hurwitz guarded_classes [3, 3] 0 (Name ''expm'') = Inl ValueError"
    using Hurwitz_construction_contract
      [of "[3, 3]" guarded_classes 0 "Name ''expm''" _ gram_manifold] p
    by simp
  have 3: "Hurwitz guarded_classes [3, 6] 2 (Name ''expm'') = Inl NonSquareError"
    using Hurwitz_construction_contract [of "[3, 6]" guarded_classes 2 "Name ''expm''"]
    by simp
  have 4: "Hurwitz guarded_classes [5] 1 (Name ''expm'') = Inl VectorError"
    using Hurwitz_construction_contract [of "[5]" guarded_classes 1 "Name ''expm''"]
    by simp
  have 5: "Hurwitz guarded_classes [0, 0] (- 1) (Name ''expm'') = Inl RankError"
    using Hurwitz_construction_contract
      [of "[0, 0]" guarded_classes "- 1" "Name ''expm''" RankError] p
    by simp
  have 6: "Hurwitz guarded_classes [4, 4] (1 / 10 ^ 4) (Name ''expm'') =
     Inr \<lparr>manifolds_of = [gram_manifold, gram_manifold, antisym_manifold], self_n = 4,
          self_tensorial_size = [], self_alpha = 1 / 10 ^ 4, self_In = eye 4\<rparr>"
    using Hurwitz_construction_contract
      [of "[4, 4]" guarded_classes "1 / 10 ^ 4" "Name ''expm''" _ gram_manifold] p
    by simp
  show ?thesis using 1 2 3 4 5 6 by (intro conjI)
qed

text \<open>
  The claim as stated promises an instance for every square size of at least two
  dimensions and every \<open>0 < alpha\<close>. With a \<^verbatim>\<open>PSD\<close> constructor that has its guards the
  call \<^verbatim>\<open>Hurwitz((0, 0), alpha=1)\<close> raises \<^verbatim>\<open>RankError\<close>, and
  \<^verbatim>\<open>Hurwitz((2, 2), alpha=1, triv="fail")\<close> raises \<^verbatim>\<open>ValueError\<close>.
\<close>

theorem Hurwitz_fails_inside_PSD:
  "Hurwitz guarded_classes [0, 0] 1 (Name ''expm'') = Inl RankError \<and>
   Hurwitz guarded_classes [2, 2] 1 (Name ''fail'') = Inl ValueError"
  by (simp add: Hurwitz_def parse_size_def manifolds_def guarded_classes_def guarded_PSD_def
      ncols_def)

section \<open>The forward map\<close>

lemma sample_instance_constructed:
  "0 < alpha \<Longrightarrow> Hurwitz sample_classes [n, n] alpha (Name ''expm'') = Inr (sample_instance n alpha)"
  by (simp add: Hurwitz_def parse_size_def manifolds_def sample_classes_def sample_instance_def)

text \<open>
  Claim C2. On an instance the constructor returned, every entry of \<open>submersion(Q, P, S)\<close>
  is the entry of \<open>P @ (-0.5 * Q + S) - alpha * I\<close>: the row of \<open>P\<close> times the column of
  \<open>-0.5 * Q + S\<close>, minus \<open>alpha\<close> on the diagonal; the sum runs over the \<open>n\<close> columns of \<open>P\<close>
  and the result has the size of the operands. \<open>forward(X1, X2, X3)\<close> is the submersion of
  what the product's forward returns for \<open>[X1, X2, X3]\<close>: the forwards of the two PSD
  manifolds and of the Skew manifold, in this order.
\<close>

theorem submersion_forward_formula:
  assumes "Hurwitz cls sz alpha triv = Inr h"
  shows "mat_at (submersion h Q P S) b i j =
           (\<Sum>k<ncols (size_of P). mat_at P b i k * (- (1 / 2) * mat_at Q b k j + mat_at S b k j))
             - alpha * (if i = j then 1 else 0) \<and>
         (size_of P = sz \<longrightarrow> ncols (size_of P) = self_n h) \<and>
         (size_of Q = sz \<and> size_of P = sz \<and> size_of S = sz \<longrightarrow> size_of (submersion h Q P S) = sz) \<and>
         (\<exists>M. PSD cls sz triv = Inr M \<and>
            ProductManifold_forward (manifolds_of h) [X1, X2, X3] =
              [m_forward M X1, m_forward M X2, m_forward (Skew cls) X3] \<and>
            forward h X1 X2 X3 =
              Inr (submersion h (m_forward M X1) (m_forward M X2) (m_forward (Skew cls) X3)))"
proof -
  note H = Hurwitz_Inr [OF assms]
  obtain M where M: "PSD cls sz triv = Inr M" and ms: "manifolds_of h = [M, M, Skew cls]"
    using H(6) by blast
  have 1: "mat_at (submersion h Q P S) b i j =
           (\<Sum>k<ncols (size_of P). mat_at P b i k * (- (1 / 2) * mat_at Q b k j + mat_at S b k j))
             - alpha * (if i = j then 1 else 0)"
    by (simp add: submersion_def t_sub_def t_matmul_def t_add_def t_smul_def H(3,5) eye_def)
  have 2: "size_of (submersion h Q P S) = sz" if "size_of Q = sz \<and> size_of P = sz \<and> size_of S = sz"
  proof -
    have "size_of (submersion h Q P S) = broadcast (batch_of sz @ [nrows sz, ncols sz]) [self_n h, self_n h]"
      using that by (simp add: submersion_def t_sub_def t_matmul_def t_add_def t_smul_def H(5) eye_def)
    also have "\<dots> = sz"
      using H(2) by (metis batch_of_append nrows_append ncols_append broadcast_matrix)
    finally show ?thesis .
  qed
  have 5: "ncols (size_of P) = self_n h" if "size_of P = sz"
    using that H(2) by (metis ncols_append)
  have 3: "ProductManifold_forward (manifolds_of h) [X1, X2, X3] =
           [m_forward M X1, m_forward M X2, m_forward (Skew cls) X3]"
    by (simp add: ProductManifold_forward_def ms)
  have 4: "forward h X1 X2 X3 =
           Inr (submersion h (m_forward M X1) (m_forward M X2) (m_forward (Skew cls) X3))"
    by (simp add: forward_def 3)
  have 6: "\<exists>M. PSD cls sz triv = Inr M \<and>
            ProductManifold_forward (manifolds_of h) [X1, X2, X3] =
              [m_forward M X1, m_forward M X2, m_forward (Skew cls) X3] \<and>
            forward h X1 X2 X3 =
              Inr (submersion h (m_forward M X1) (m_forward M X2) (m_forward (Skew cls) X3))"
    using M 3 4 by blast
  show ?thesis using 1 2 5 6 by blast
qed

lemma sum_lessThan_2: "(\<Sum>k<(2::nat). f k) = f 0 + (f 1 :: real)"
  by (simp add: numeral_2_eq_2)

theorem submersion_forward_formula_witness:
  "Hurwitz sample_classes [2, 2] 1 (Name ''expm'') = Inr (sample_instance 2 1) \<and>
   (\<exists>A. forward (sample_instance 2 1) (Tensor 2 (of_rows [[1, 2], [3, 4]]))
            (Tensor 2 (of_rows [[1, 2], [3, 4]])) (Tensor 2 (of_rows [[1, 2], [3, 4]])) = Inr A \<and>
        size_of A = [2, 2] \<and>
        mat_at A [] 0 0 = - 63 \<and> mat_at A [] 0 1 = - 170 \<and>
        mat_at A [] 1 0 = - 140 \<and> mat_at A [] 1 1 = - 385)"
proof -
  let ?X = "Tensor 2 (of_rows [[1, 2], [3, 4]])"
  let ?h = "sample_instance 2 1"
  have c: "Hurwitz sample_classes [2, 2] 1 (Name ''expm'') = Inr ?h"
    by (simp add: sample_instance_constructed)
  let ?Q = "m_forward gram_manifold ?X"
  let ?S = "m_forward (Skew sample_classes) ?X"
  have M: "PSD sample_classes [2, 2] (Name ''expm'') = Inr gram_manifold"
    by (simp add: sample_classes_def)
  have sz: "size_of ?Q = [2, 2]" "size_of ?S = [2, 2]"
    by (simp_all add: sample_classes_def gram_manifold_def antisym_manifold_def t_matmul_def
        t_transpose_def t_sub_def Tensor_def batch_of_def nrows_def ncols_def broadcast_def)
  have Q: "mat_at ?Q [] 0 0 = 5" "mat_at ?Q [] 0 1 = 11" "mat_at ?Q [] 1 0 = 11" "mat_at ?Q [] 1 1 = 25"
    by (simp_all add: sample_classes_def gram_manifold_def t_matmul_def t_transpose_def Tensor_def
        ncols_def of_rows_def sum_lessThan_2)
  have S: "mat_at ?S [] 0 0 = 0" "mat_at ?S [] 0 1 = - 1" "mat_at ?S [] 1 0 = 1" "mat_at ?S [] 1 1 = 0"
    by (simp_all add: sample_classes_def antisym_manifold_def t_sub_def t_transpose_def Tensor_def
        of_rows_def)
  note T = submersion_forward_formula [OF c, of ?Q ?Q ?S "[]" _ _ ?X ?X ?X]
  have f: "forward ?h ?X ?X ?X = Inr (submersion ?h ?Q ?Q ?S)"
    using T [of 0 0] M by auto
  have s: "size_of (submersion ?h ?Q ?Q ?S) = [2, 2]"
    using T [of 0 0] sz by blast
  have e: "mat_at (submersion ?h ?Q ?Q ?S) [] 0 0 = - 63" "mat_at (submersion ?h ?Q ?Q ?S) [] 0 1 = - 170"
    "mat_at (submersion ?h ?Q ?Q ?S) [] 1 0 = - 140" "mat_at (submersion ?h ?Q ?Q ?S) [] 1 1 = - 385"
    using T [of 0 0] T [of 0 1] T [of 1 0] T [of 1 1] sz Q S
    by (simp_all add: ncols_def sum_lessThan_2)
  show ?thesis using c f s e by simp
qed


section \<open>The two arithmetics\<close>

lemmas float_eval =
  float32_def float64_def round_binary_def exponent_of_def expo_up.simps expo_down.simps pow2_def
  round_half_even_def Let_def

lemma t_round_exact [simp]: "t_round (\<lambda>x. x) X = X"
  by (simp add: t_round_def)

lemma submersion_fl_exact: "submersion_fl exact h Q P S = submersion h Q P S"
  by (simp add: submersion_fl_def submersion_def exact_def)

lemma forward_fl_exact: "forward_fl exact h X1 X2 X3 = forward h X1 X2 X3"
  by (simp add: forward_fl_def forward_def submersion_fl_exact split: list.splits)

lemma sample_fl_exact: "sample_fl exact h init g = sample h init g"
  by (simp add: sample_fl_def sample_def exact_def)

lemma in_manifold_eigen_fl_exact:
  "in_manifold_eigen_fl exact env h A eps = in_manifold_eigen env h A eps"
  by (simp add: in_manifold_eigen_fl_def in_manifold_eigen_def exact_def Let_def split: sum.splits)

section \<open>Properties of the membership test\<close>

lemma list_all_Re_concat:
  "list_all P (map Re (concat (map f bs))) = (\<forall>b\<in>set bs. \<forall>ev\<in>set (f b). P (Re ev))"
  by (auto simp: list_all_iff)

lemma batch_indices_Nil [simp]: "batch_indices [] = [[]]"
  by (simp add: batch_indices_def)

lemma upt_2: "[0..<2] = [0, Suc 0]"
  by (simp add: numeral_2_eq_2)

lemma in_manifold_eigen_fl_shape:
  assumes "batch_of (size_of A) = self_tensorial_size h" and "2 \<le> length (size_of A)"
    and "nrows (size_of A) = ncols (size_of A)"
  shows "in_manifold_eigen_fl ar env h A eps =
      Inr (\<forall>b\<in>set (batch_indices (self_tensorial_size h)).
             \<forall>ev\<in>set (torch_eigvals env (ncols (size_of A)) (mat_at A b)).
               Re ev \<le> dtype_round ar (py_round ar (- py_round ar (self_alpha h) + py_round ar eps)))"
  using assms
  by (simp add: in_manifold_eigen_fl_def linalg_eigvals_def Let_def list_all_Re_concat)

text \<open>
  Claim C4, as amended. \<open>in_manifold_eigen(A, eps)\<close> returns false when the batch shape of
  \<open>A\<close> (all dimensions but the last two) is not \<open>tensorial_size\<close>. When it is, and \<open>A\<close> has
  at least two dimensions of which the last two are equal, it returns whether every
  number that the eigenvalue routine returns for a matrix of the batch has real part at
  most the bound, which is the float \<^verbatim>\<open>-self.alpha + eps\<close> of Python converted to the type
  of the entries of the tensor. In exact arithmetic and for a routine that is exact on
  \<open>A\<close>, this is whether every eigenvalue of every matrix of the batch has real part at
  most \<open>-alpha + eps\<close>. When the batch shape agrees and \<open>A\<close> has fewer than two dimensions
  or is not square, the eigenvalue routine raises.
\<close>

theorem in_manifold_eigen_contract:
  "(batch_of (size_of A) \<noteq> self_tensorial_size h \<longrightarrow>
      in_manifold_eigen_fl ar env h A eps = Inr False) \<and>
   (batch_of (size_of A) = self_tensorial_size h \<and> 2 \<le> length (size_of A) \<and>
      nrows (size_of A) = ncols (size_of A) \<longrightarrow>
      in_manifold_eigen_fl ar env h A eps =
        Inr (\<forall>b\<in>set (batch_indices (self_tensorial_size h)).
               \<forall>ev\<in>set (torch_eigvals env (ncols (size_of A)) (mat_at A b)).
                 Re ev \<le> dtype_round ar
                   (py_round ar (- py_round ar (self_alpha h) + py_round ar eps)))) \<and>
   (batch_of (size_of A) = self_tensorial_size h \<and>
      (length (size_of A) < 2 \<or> nrows (size_of A) \<noteq> ncols (size_of A)) \<longrightarrow>
      in_manifold_eigen_fl ar env h A eps = Inl RuntimeError) \<and>
   (batch_of (size_of A) = self_tensorial_size h \<and> 2 \<le> length (size_of A) \<and>
      nrows (size_of A) = ncols (size_of A) \<and> eigvals_exact env A \<longrightarrow>
      in_manifold_eigen_fl exact env h A eps =
        Inr (\<forall>b\<in>set (batch_indices (self_tensorial_size h)).
               \<forall>ev. is_eigenvalue (ncols (size_of A)) (mat_at A b) ev \<longrightarrow>
                 Re ev \<le> - self_alpha h + eps))"
proof -
  have 1: "in_manifold_eigen_fl ar env h A eps = Inr False"
    if "batch_of (size_of A) \<noteq> self_tensorial_size h"
    using that by (simp add: in_manifold_eigen_fl_def)
  have 2: "in_manifold_eigen_fl ar env h A eps =
        Inr (\<forall>b\<in>set (batch_indices (self_tensorial_size h)).
               \<forall>ev\<in>set (torch_eigvals env (ncols (size_of A)) (mat_at A b)).
                 Re ev \<le> dtype_round ar
                   (py_round ar (- py_round ar (self_alpha h) + py_round ar eps)))"
    if "batch_of (size_of A) = self_tensorial_size h \<and> 2 \<le> length (size_of A) \<and>
      nrows (size_of A) = ncols (size_of A)"
    using that by (simp add: in_manifold_eigen_fl_shape)
  have 3: "in_manifold_eigen_fl ar env h A eps = Inl RuntimeError"
    if "batch_of (size_of A) = self_tensorial_size h \<and>
      (length (size_of A) < 2 \<or> nrows (size_of A) \<noteq> ncols (size_of A))"
    using that by (auto simp: in_manifold_eigen_fl_def linalg_eigvals_def Let_def)
  have 4: "in_manifold_eigen_fl exact env h A eps =
        Inr (\<forall>b\<in>set (batch_indices (self_tensorial_size h)).
               \<forall>ev. is_eigenvalue (ncols (size_of A)) (mat_at A b) ev \<longrightarrow>
                 Re ev \<le> - self_alpha h + eps)"
    if a: "batch_of (size_of A) = self_tensorial_size h \<and> 2 \<le> length (size_of A) \<and>
      nrows (size_of A) = ncols (size_of A) \<and> eigvals_exact env A"
  proof -
    have s: "set (torch_eigvals env (ncols (size_of A)) (mat_at A b)) =
        {ev. is_eigenvalue (ncols (size_of A)) (mat_at A b) ev}"
      if "b \<in> set (batch_indices (self_tensorial_size h))" for b
      using a that by (simp add: eigvals_exact_def)
    have "in_manifold_eigen_fl exact env h A eps =
        Inr (\<forall>b\<in>set (batch_indices (self_tensorial_size h)).
               \<forall>ev\<in>set (torch_eigvals env (ncols (size_of A)) (mat_at A b)).
                 Re ev \<le> - self_alpha h + eps)"
      using a by (simp add: in_manifold_eigen_fl_shape exact_def)
    also have "\<dots> = Inr (\<forall>b\<in>set (batch_indices (self_tensorial_size h)).
               \<forall>ev. is_eigenvalue (ncols (size_of A)) (mat_at A b) ev \<longrightarrow>
                 Re ev \<le> - self_alpha h + eps)"
      using s by auto
    finally show ?thesis .
  qed
  show ?thesis using 1 2 3 4 by blast
qed

lemma is_eigenvalue_1x1:
  "is_eigenvalue (Suc 0) M ev \<longleftrightarrow> ev = complex_of_real (M 0 0)"
proof
  assume "is_eigenvalue (Suc 0) M ev"
  then obtain v where v: "v 0 \<noteq> 0" "complex_of_real (M 0 0) * v 0 = ev * v 0"
    by (auto simp: is_eigenvalue_def)
  then show "ev = complex_of_real (M 0 0)" by simp
next
  assume e: "ev = complex_of_real (M 0 0)"
  show "is_eigenvalue (Suc 0) M ev"
    unfolding is_eigenvalue_def
    by (rule exI [of _ "\<lambda>i. 1"]) (simp add: e)
qed

lemma eigvals_exact_1x1: "eigvals_exact (sample_env inst ans) (Tensor (Suc 0) M)"
  by (auto simp: eigvals_exact_def Tensor_def batch_of_def ncols_def sample_env_def
      triangular_eigvals_def is_eigenvalue_1x1)

lemma binary32_bound: "float32 (float64 (- float64 1 + float64 (1 / 10 ^ 6))) = - 16777199 / 16777216"
  by (simp add: float_eval)

theorem in_manifold_eigen_contract_witness:
  "in_manifold_eigen_fl torch_default (sample_env [] (Inl Lib_SolverError)) (sample_instance 2 1)
     \<lparr>size_of = [3, 2, 2], mat_at = (\<lambda>b. of_rows [[- 2, 5], [0, - 3]])\<rparr> default_eps = Inr False \<and>
   in_manifold_eigen_fl torch_default (sample_env [] (Inl Lib_SolverError)) (sample_instance 2 1)
     (Tensor 2 (of_rows [[- 2, 5], [0, - 3]])) default_eps = Inr True \<and>
   in_manifold_eigen_fl torch_default (sample_env [] (Inl Lib_SolverError)) (sample_instance 2 1)
     (Tensor 2 (of_rows [[- 2, 5], [0, 1]])) default_eps = Inr False \<and>
   in_manifold_eigen_fl torch_default (sample_env [] (Inl Lib_SolverError)) (sample_instance 2 1)
     \<lparr>size_of = [5], mat_at = (\<lambda>b. m_zero)\<rparr> default_eps = Inl RuntimeError \<and>
   in_manifold_eigen_fl exact (sample_env [] (Inl Lib_SolverError)) (sample_instance 1 1)
     (Tensor 1 (of_rows [[- 2]])) default_eps = Inr True \<and>
   in_manifold_eigen_fl exact (sample_env [] (Inl Lib_SolverError)) (sample_instance 1 1)
     (Tensor 1 (of_rows [[- 1 / 2]])) default_eps = Inr False"
proof -
  let ?env = "sample_env [] (Inl Lib_SolverError)"
  let ?h = "sample_instance 2 1"
  have dr: "dtype_round torch_default = float32" "py_round torch_default = float64"
    by (simp_all add: torch_default_def)
  have hh: "self_alpha ?h = 1" "self_tensorial_size ?h = []"
    by (simp_all add: sample_instance_def)
  have b: "float32 (float64 (- float64 (self_alpha ?h) + float64 default_eps)) = - 16777199 / 16777216"
    unfolding hh default_eps_def by (rule binary32_bound)
  have 1: "in_manifold_eigen_fl torch_default ?env ?h
     \<lparr>size_of = [3, 2, 2], mat_at = (\<lambda>b. of_rows [[- 2, 5], [0, - 3]])\<rparr> default_eps = Inr False"
    using in_manifold_eigen_contract
      [of "\<lparr>size_of = [3, 2, 2], mat_at = (\<lambda>b. of_rows [[- 2, 5], [0, - 3]])\<rparr>" ?h torch_default
        ?env default_eps]
    by (simp add: batch_of_def sample_instance_def)
  have 2: "in_manifold_eigen_fl torch_default ?env ?h (Tensor 2 (of_rows [[- 2, 5], [0, - 3]])) default_eps
      = Inr True"
    using in_manifold_eigen_contract
      [of "Tensor 2 (of_rows [[- 2, 5], [0, - 3]])" ?h torch_default ?env default_eps]
    unfolding dr b
    by (simp add: batch_of_def nrows_def ncols_def sample_instance_def Tensor_def sample_env_def
        triangular_eigvals_def of_rows_def upt_2)
  have 3: "in_manifold_eigen_fl torch_default ?env ?h (Tensor 2 (of_rows [[- 2, 5], [0, 1]])) default_eps
      = Inr False"
    using in_manifold_eigen_contract
      [of "Tensor 2 (of_rows [[- 2, 5], [0, 1]])" ?h torch_default ?env default_eps]
    unfolding dr b
    by (simp add: batch_of_def nrows_def ncols_def sample_instance_def Tensor_def sample_env_def
        triangular_eigvals_def of_rows_def upt_2)
  have 4: "in_manifold_eigen_fl torch_default ?env ?h \<lparr>size_of = [5], mat_at = (\<lambda>b. m_zero)\<rparr> default_eps
      = Inl RuntimeError"
    using in_manifold_eigen_contract
      [of "\<lparr>size_of = [5], mat_at = (\<lambda>b. m_zero)\<rparr>" ?h torch_default ?env default_eps]
    by (simp add: batch_of_def sample_instance_def)
  have e: "eigvals_exact ?env (Tensor 1 M)" for M
    using eigvals_exact_1x1 [of "[]" "Inl Lib_SolverError" M] by simp
  have s: "batch_of (size_of (Tensor 1 M)) = self_tensorial_size (sample_instance 1 1) \<and>
      2 \<le> length (size_of (Tensor 1 M)) \<and>
      nrows (size_of (Tensor 1 M)) = ncols (size_of (Tensor 1 M)) \<and>
      eigvals_exact ?env (Tensor 1 M)" for M
    by (intro conjI e) (simp_all add: Tensor_def batch_of_def nrows_def ncols_def sample_instance_def)
  note T = in_manifold_eigen_contract [of "Tensor 1 M" "sample_instance 1 1" exact ?env default_eps
      for M, THEN conjunct2, THEN conjunct2, THEN conjunct2, THEN mp, OF s]
  have 5: "in_manifold_eigen_fl exact ?env (sample_instance 1 1) (Tensor 1 (of_rows [[- 2]])) default_eps
      = Inr True"
    unfolding T
    by (simp add: sample_instance_def Tensor_def ncols_def is_eigenvalue_1x1 of_rows_def
        default_eps_def)
  have 6: "in_manifold_eigen_fl exact ?env (sample_instance 1 1) (Tensor 1 (of_rows [[- 1 / 2]])) default_eps
      = Inr False"
    unfolding T
    by (simp add: sample_instance_def Tensor_def ncols_def is_eigenvalue_1x1 of_rows_def
        default_eps_def)
  show ?thesis using 1 2 3 4 5 6 by (intro conjI)
qed

text \<open>
  The claim as stated fails in two ways. On a \<open>3 \<times> 6\<close> tensor given to an instance for
  \<open>3 \<times> 3\<close> matrices without batch dimensions the batch shapes agree (both are empty), and
  the call raises instead of returning. And for \<open>alpha = 1\<close> and \<open>eps = 1e-6\<close> the \<open>1 \<times> 1\<close>
  matrix with the entry \<open>-16777199/16777216\<close>, the number of binary32 nearest to
  \<open>-0.999999\<close>, passes the test of the program, which rounds its bound to this very
  number, while the eigenvalue of the matrix is above \<open>-alpha + eps\<close>.
\<close>

theorem in_manifold_eigen_raises_and_rounds:
  "in_manifold_eigen_fl torch_default (sample_env [] (Inl Lib_SolverError)) (sample_instance 3 1)
     \<lparr>size_of = [3, 6], mat_at = (\<lambda>b. m_zero)\<rparr> default_eps = Inl RuntimeError \<and>
   in_manifold_eigen_fl exact (sample_env [] (Inl Lib_SolverError)) (sample_instance 3 1)
     \<lparr>size_of = [3, 6], mat_at = (\<lambda>b. m_zero)\<rparr> default_eps = Inl RuntimeError \<and>
   in_manifold_eigen_fl torch_default (sample_env [] (Inl Lib_SolverError)) (sample_instance 1 1)
     (Tensor 1 (of_rows [[- 16777199 / 16777216]])) default_eps = Inr True \<and>
   is_eigenvalue 1 (of_rows [[- 16777199 / 16777216]]) (complex_of_real (- 16777199 / 16777216)) \<and>
   - self_alpha (sample_instance 1 1) + default_eps < - 16777199 / 16777216"
proof -
  let ?env = "sample_env [] (Inl Lib_SolverError)"
  have 1: "in_manifold_eigen_fl ar ?env (sample_instance 3 1)
     \<lparr>size_of = [3, 6], mat_at = (\<lambda>b. m_zero)\<rparr> default_eps = Inl RuntimeError" for ar
    by (simp add: in_manifold_eigen_fl_def linalg_eigvals_def batch_of_def nrows_def ncols_def
        sample_instance_def)
  have dr: "dtype_round torch_default = float32" "py_round torch_default = float64"
    by (simp_all add: torch_default_def)
  have hh: "self_alpha (sample_instance 1 1) = 1" "self_tensorial_size (sample_instance 1 1) = []"
    by (simp_all add: sample_instance_def)
  have b: "float32 (float64 (- float64 (self_alpha (sample_instance 1 1)) + float64 default_eps)) =
      - 16777199 / 16777216"
    unfolding hh default_eps_def by (rule binary32_bound)
  have s: "batch_of (size_of (Tensor 1 (of_rows [[- 16777199 / 16777216]]))) =
        self_tensorial_size (sample_instance 1 1)"
      "2 \<le> length (size_of (Tensor 1 (of_rows [[- 16777199 / 16777216]])))"
      "nrows (size_of (Tensor 1 (of_rows [[- 16777199 / 16777216]]))) =
        ncols (size_of (Tensor 1 (of_rows [[- 16777199 / 16777216]])))"
    by (simp_all add: Tensor_def batch_of_def nrows_def ncols_def sample_instance_def)
  have 3: "in_manifold_eigen_fl torch_default ?env (sample_instance 1 1)
     (Tensor 1 (of_rows [[- 16777199 / 16777216]])) default_eps = Inr True"
    unfolding in_manifold_eigen_fl_shape [OF s] dr b
    by (simp add: hh Tensor_def ncols_def sample_env_def triangular_eigvals_def of_rows_def)
  have 4: "is_eigenvalue 1 (of_rows [[- 16777199 / 16777216]]) (complex_of_real (- 16777199 / 16777216))"
    using is_eigenvalue_1x1 [of "of_rows [[- 16777199 / 16777216]]" "complex_of_real (- 16777199 / 16777216)"]
    by (simp add: of_rows_def)
  have 5: "- self_alpha (sample_instance 1 1) + default_eps < - 16777199 / 16777216"
    by (simp add: sample_instance_def default_eps_def)
  show ?thesis using 1 3 4 5 by (intro conjI)
qed

section \<open>The gate of the inverse submersion\<close>

lemma raised_not_InManifoldError [simp]: "raised e \<noteq> InManifoldError"
  by (cases e) simp_all

lemma solve_and_recover_not_InManifoldError:
  "fst (solve_and_recover env h A epsilon solver st) \<noteq> Inl InManifoldError"
  by (auto simp: solve_and_recover_def Let_def split: prod.splits sum.splits option.splits)

lemma solve_and_recover_eigvals:
  "solve_and_recover (env\<lparr>torch_eigvals := eig'\<rparr>) h A epsilon solver st =
   solve_and_recover env h A epsilon solver st"
  by (simp add: solve_and_recover_def Let_def split: prod.splits sum.splits option.splits)

lemma right_inverse_unchecked_InManifoldError:
  "(fst (right_inverse env h A False st) = Inl InManifoldError) =
     (\<exists>Q P S st'. solve_and_recover env h A default_epsilon default_solver st = (Inr (Q, P, S), st') \<and>
        ProductManifold_right_inverse (manifolds_of h) [Q, P, S] True = Inl InManifoldError)"
proof (cases "solve_and_recover env h A default_epsilon default_solver st")
  case (Pair r st')
  show ?thesis
  proof (cases r)
    case (Inl e)
    have "e \<noteq> InManifoldError"
      using solve_and_recover_not_InManifoldError [of env h A default_epsilon default_solver st]
      by (simp add: Pair Inl)
    then show ?thesis
      by (simp add: right_inverse_def submersion_inv_def Pair Inl)
  next
    case (Inr T)
    obtain Q P S where T: "T = (Q, P, S)" by (cases T) auto
    show ?thesis
      by (auto simp: right_inverse_def submersion_inv_def Pair Inr T split: sum.splits list.splits)
  qed
qed

text \<open>
  Claim C6, as amended. When the eigenvalue test returns false, \<open>submersion_inv\<close> and
  \<open>right_inverse\<close> with \<open>check_in_manifold=True\<close> raise \<^verbatim>\<open>InManifoldError\<close> and leave
  the state of the solver as it was: nothing was solved. With \<open>check_in_manifold=False\<close>
  the eigenvalue test is not run: \<open>submersion_inv\<close> is the solving block alone, the
  results of \<open>submersion_inv\<close> and of \<open>right_inverse\<close> do not depend on the eigenvalue
  routine, and \<open>submersion_inv\<close> does not raise \<^verbatim>\<open>InManifoldError\<close>. \<open>right_inverse\<close> does
  not pass the flag on to the right inverse of the product, which runs with the default
  of its own flag: \<open>right_inverse\<close> with \<open>check_in_manifold=False\<close> raises
  \<^verbatim>\<open>InManifoldError\<close> exactly when the solving block returns factors on which the right
  inverse of the product raises it.
\<close>

theorem right_inverse_membership_gate:
  "(in_manifold_eigen env h A epsilon = Inr False \<longrightarrow>
      submersion_inv env h A True epsilon solver st = (Inl InManifoldError, st)) \<and>
   (in_manifold_eigen env h A default_epsilon = Inr False \<longrightarrow>
      right_inverse env h A True st = (Inl InManifoldError, st)) \<and>
   submersion_inv env h A False epsilon solver st = solve_and_recover env h A epsilon solver st \<and>
   submersion_inv (env\<lparr>torch_eigvals := eig'\<rparr>) h A False epsilon solver st =
     submersion_inv env h A False epsilon solver st \<and>
   right_inverse (env\<lparr>torch_eigvals := eig'\<rparr>) h A False st = right_inverse env h A False st \<and>
   fst (submersion_inv env h A False epsilon solver st) \<noteq> Inl InManifoldError \<and>
   (fst (right_inverse env h A False st) = Inl InManifoldError) =
     (\<exists>Q P S st'. solve_and_recover env h A default_epsilon default_solver st = (Inr (Q, P, S), st') \<and>
        ProductManifold_right_inverse (manifolds_of h) [Q, P, S] True = Inl InManifoldError)"
proof -
  have 3: "submersion_inv env h A False eps' s st = solve_and_recover env h A eps' s st" for eps' s
    by (simp add: submersion_inv_def)
  have 1: "submersion_inv env h A True eps' s st = (Inl InManifoldError, st)"
    if "in_manifold_eigen env h A eps' = Inr False" for eps' s
    using that by (simp add: submersion_inv_def)
  have 2: "right_inverse env h A True st = (Inl InManifoldError, st)"
    if "in_manifold_eigen env h A default_epsilon = Inr False"
    using 1 [OF that] by (simp add: right_inverse_def)
  have 4: "submersion_inv (env\<lparr>torch_eigvals := eig'\<rparr>) h A False eps' s st =
     submersion_inv env h A False eps' s st" for eps' s
    by (simp add: submersion_inv_def solve_and_recover_eigvals)
  have 5: "right_inverse (env\<lparr>torch_eigvals := eig'\<rparr>) h A False st = right_inverse env h A False st"
    by (simp add: right_inverse_def 4)
  have 6: "fst (submersion_inv env h A False epsilon solver st) \<noteq> Inl InManifoldError"
    by (simp add: 3 solve_and_recover_not_InManifoldError)
  note 7 = right_inverse_unchecked_InManifoldError [of env h A st]
  show ?thesis using 1 2 3 4 5 6 7 by blast
qed

lemma in_manifold_eigen_1x1:
  "in_manifold_eigen (sample_env inst ans) (sample_instance (Suc 0) alpha)
     (Tensor (Suc 0) (of_rows [[a]])) eps = Inr (a \<le> - alpha + eps)"
  by (simp add: in_manifold_eigen_def linalg_eigvals_def batch_of_def nrows_def ncols_def
      sample_instance_def Tensor_def sample_env_def triangular_eigvals_def of_rows_def)

theorem right_inverse_membership_gate_witness:
  "in_manifold_eigen (sample_env [''MOSEK''] (Inr (''infeasible'', None))) (sample_instance 1 1)
      (Tensor 1 (of_rows [[0]])) default_epsilon = Inr False \<and>
   right_inverse (sample_env [''MOSEK''] (Inr (''infeasible'', None))) (sample_instance 1 1)
      (Tensor 1 (of_rows [[0]])) True [] = (Inl InManifoldError, []) \<and>
   right_inverse (sample_env [''MOSEK''] (Inr (''infeasible'', None))) (sample_instance 1 1)
      (Tensor 1 (of_rows [[0]])) False [] =
     (Inl ValueError, [(''MOSEK'', sdp_problem (sample_instance 1 1) 1 (of_rows [[0]]) default_epsilon)])"
proof -
  let ?env = "sample_env [''MOSEK''] (Inr (''infeasible'', None))"
  let ?h = "sample_instance 1 1"
  let ?A = "Tensor 1 (of_rows [[0]])"
  have g: "in_manifold_eigen ?env ?h ?A default_epsilon = Inr False"
    by (simp add: in_manifold_eigen_1x1 default_epsilon_def)
  have 1: "right_inverse ?env ?h ?A True [] = (Inl InManifoldError, [])"
    using right_inverse_membership_gate [of ?env ?h ?A default_epsilon default_solver "[]"] g
    by simp
  have 2: "right_inverse ?env ?h ?A False [] =
     (Inl ValueError, [(''MOSEK'', sdp_problem ?h 1 (of_rows [[0]]) default_epsilon)])"
    by (simp add: right_inverse_def submersion_inv_def solve_and_recover_def Tensor_def nrows_def
        sample_env_def recording_solver_def default_solver_def)
  show ?thesis using g 1 2 by simp
qed

section \<open>The semidefinite program\<close>

lemma quad_m_sub: "quad n (m_sub X Y) x = quad n X x - quad n Y x"
  by (simp add: quad_def m_sub_def algebra_simps sum_subtractf)

lemma quad_m_smul: "quad n (m_smul c X) x = c * quad n X x"
  by (simp add: quad_def m_smul_def sum_distrib_left algebra_simps)

lemma quad_m_eye: "quad n m_eye x = (\<Sum>i<n. x i * x i)"
  by (simp add: quad_def m_eye_def if_distrib [of "\<lambda>z. _ * z * _"] if_distrib [of "\<lambda>z. z * _"] cong: if_cong)

lemma quad_m_zero: "quad n m_zero x = 0"
  by (simp add: quad_def m_zero_def)

lemma lyapunov_expr_entry:
  "lyapunov_expr h nx A P i j =
     (\<Sum>k<nx. A k i * P k j) + (\<Sum>k<nx. P i k * A k j) + 2 * self_alpha h * P i j"
  by (simp add: lyapunov_expr_def m_add_def m_mul_def m_T_def m_smul_def)

lemma feasible_sdp_problem:
  "feasible (sdp_problem h nx A epsilon) P \<longleftrightarrow>
     is_psd nx P \<and>
     (\<forall>x. quad nx (lyapunov_expr h nx A P) x \<le> - epsilon * (\<Sum>i<nx. x i * x i)) \<and>
     (\<forall>x. epsilon * (\<Sum>i<nx. x i * x i) \<le> quad nx P x)"
proof -
  have e: "a + c \<le> 0 \<longleftrightarrow> a \<le> - c" for a c :: real
    by linarith
  show ?thesis
    by (simp add: feasible_def sdp_problem_def quad_m_sub quad_m_smul quad_m_eye quad_m_zero e)
qed

text \<open>
  Claim C8. The program built by \<open>submersion_inv\<close> has an \<open>nx \<times> nx\<close> variable declared
  positive semidefinite and the constant objective \<open>0\<close>; a value \<open>P\<close> of the variable is
  feasible exactly when \<open>P\<close> is symmetric positive semidefinite,
  \<open>A\<^sup>T P + P A + 2 alpha P \<preceq> - epsilon I\<close> and \<open>P \<succeq> epsilon I\<close>. When the solver, called on
  this program, reports \<^verbatim>\<open>infeasible\<close> or \<^verbatim>\<open>unbounded\<close>, the call raises \<^verbatim>\<open>ValueError\<close>
  and the state of the solver is the one this single call left.
\<close>

theorem sdp_feasibility_problem:
  "var_dim (sdp_problem h nx Am epsilon) = nx \<and> var_PSD (sdp_problem h nx Am epsilon) \<and>
   minimize (sdp_problem h nx Am epsilon) P = 0 \<and>
   (feasible (sdp_problem h nx Am epsilon) P \<longleftrightarrow>
      is_psd nx P \<and>
      (\<forall>x. quad nx (lyapunov_expr h nx Am P) x \<le> - epsilon * (\<Sum>i<nx. x i * x i)) \<and>
      (\<forall>x. epsilon * (\<Sum>i<nx. x i * x i) \<le> quad nx P x)) \<and>
   lyapunov_expr h nx Am P i j =
     (\<Sum>k<nx. Am k i * P k j) + (\<Sum>k<nx. P i k * Am k j) + 2 * self_alpha h * P i j \<and>
   (size_of A = [nx, nx] \<and>
    cvxpy_solve env solver (sdp_problem h nx (mat_at A []) epsilon) st = (Inr (status, P_value), st') \<and>
    (status = ''infeasible'' \<or> status = ''unbounded'') \<longrightarrow>
      solve_and_recover env h A epsilon solver st = (Inl ValueError, st') \<and>
      submersion_inv env h A False epsilon solver st = (Inl ValueError, st') \<and>
      (in_manifold_eigen env h A epsilon = Inr True \<longrightarrow>
         submersion_inv env h A True epsilon solver st = (Inl ValueError, st')))"
proof -
  have f: "solve_and_recover env h A epsilon solver st = (Inl ValueError, st')"
    if "size_of A = [nx, nx]"
      "cvxpy_solve env solver (sdp_problem h nx (mat_at A []) epsilon) st = (Inr (status, P_value), st')"
      "status = ''infeasible'' \<or> status = ''unbounded''"
    using that by (auto simp: solve_and_recover_def nrows_def)
  have "var_dim (sdp_problem h nx Am epsilon) = nx" "var_PSD (sdp_problem h nx Am epsilon)"
    "minimize (sdp_problem h nx Am epsilon) P = 0"
    by (simp_all add: sdp_problem_def)
  then show ?thesis
    using f feasible_sdp_problem [of h nx Am epsilon P] lyapunov_expr_entry [of h nx Am P i j]
    by (simp add: submersion_inv_def)
qed

theorem sdp_feasibility_problem_witness:
  "\<not> feasible (sdp_problem (sample_instance 1 1) 1 (of_rows [[0]]) default_epsilon) (of_rows [[1]]) \<and>
   feasible (sdp_problem (sample_instance 1 1) 1 (of_rows [[- 2]]) default_epsilon) (of_rows [[1]]) \<and>
   submersion_inv (sample_env [''MOSEK''] (Inr (''infeasible'', None))) (sample_instance 1 1)
      (Tensor 1 (of_rows [[0]])) False default_epsilon ''MOSEK'' [] =
     (Inl ValueError, [(''MOSEK'', sdp_problem (sample_instance 1 1) 1 (of_rows [[0]]) default_epsilon)]) \<and>
   submersion_inv (sample_env [''MOSEK''] (Inr (''unbounded'', None))) (sample_instance 1 1)
      (Tensor 1 (of_rows [[- 2]])) True default_epsilon ''MOSEK'' [] =
     (Inl ValueError, [(''MOSEK'', sdp_problem (sample_instance 1 1) 1 (of_rows [[- 2]]) default_epsilon)])"
proof -
  let ?h = "sample_instance 1 1"
  have q1: "quad (Suc 0) M x = x 0 * M 0 0 * x 0" for M x
    by (simp add: quad_def)
  have psd1: "is_psd 1 (of_rows [[1]])"
    by (simp add: is_psd_def is_symmetric_def q1 of_rows_def)
  have 1: "\<not> feasible (sdp_problem ?h 1 (of_rows [[0]]) default_epsilon) (of_rows [[1]])"
  proof -
    have "\<not> (\<forall>x. quad 1 (lyapunov_expr ?h 1 (of_rows [[0]]) (of_rows [[1]])) x
               \<le> - default_epsilon * (\<Sum>i<1. x i * x i))"
      by (simp add: q1 lyapunov_expr_entry of_rows_def sample_instance_def default_epsilon_def
          not_le exI [of _ "\<lambda>i. 1"])
    moreover note sdp_feasibility_problem [of ?h 1 "of_rows [[0]]" default_epsilon "of_rows [[1]]",
        THEN conjunct2, THEN conjunct2, THEN conjunct2, THEN conjunct1]
    ultimately show ?thesis by simp
  qed
  have 2: "feasible (sdp_problem ?h 1 (of_rows [[- 2]]) default_epsilon) (of_rows [[1]])"
  proof -
    have a: "\<forall>x. quad 1 (lyapunov_expr ?h 1 (of_rows [[- 2]]) (of_rows [[1]])) x
               \<le> - default_epsilon * (\<Sum>i<1. x i * x i)"
    proof
      fix x :: "nat \<Rightarrow> real"
      have "0 \<le> x 0 * x 0" by simp
      then show "quad 1 (lyapunov_expr ?h 1 (of_rows [[- 2]]) (of_rows [[1]])) x
               \<le> - default_epsilon * (\<Sum>i<1. x i * x i)"
        by (simp add: q1 lyapunov_expr_entry of_rows_def sample_instance_def default_epsilon_def
            algebra_simps)
    qed
    have b: "\<forall>x. default_epsilon * (\<Sum>i<1. x i * x i) \<le> quad 1 (of_rows [[1]]) x"
    proof
      fix x :: "nat \<Rightarrow> real"
      have "0 \<le> x 0 * x 0" by simp
      then show "default_epsilon * (\<Sum>i<1. x i * x i) \<le> quad 1 (of_rows [[1]]) x"
        by (simp add: q1 of_rows_def default_epsilon_def algebra_simps)
    qed
    note F = sdp_feasibility_problem [of ?h 1 "of_rows [[- 2]]" default_epsilon "of_rows [[1]]",
        THEN conjunct2, THEN conjunct2, THEN conjunct2, THEN conjunct1]
    show ?thesis
      unfolding F using psd1 a b by (intro conjI)
  qed
  let ?env0 = "sample_env [''MOSEK''] (Inr (''infeasible'', None))"
  let ?p0 = "sdp_problem ?h 1 (of_rows [[0]]) default_epsilon"
  have c0: "cvxpy_solve ?env0 ''MOSEK'' (sdp_problem ?h 1 (mat_at (Tensor 1 (of_rows [[0]])) []) default_epsilon) []
     = (Inr (''infeasible'', None), [(''MOSEK'', ?p0)])"
    by (simp add: sample_env_def recording_solver_def Tensor_def)
  have 3: "submersion_inv ?env0 ?h (Tensor 1 (of_rows [[0]])) False default_epsilon ''MOSEK'' [] =
     (Inl ValueError, [(''MOSEK'', ?p0)])"
    using sdp_feasibility_problem [of ?h 1 _ default_epsilon _ _ _ "Tensor 1 (of_rows [[0]])" ?env0
        "''MOSEK''" "[]" "''infeasible''" None "[(''MOSEK'', ?p0)]"] c0
    by (simp add: Tensor_def)
  let ?env1 = "sample_env [''MOSEK''] (Inr (''unbounded'', None))"
  let ?p1 = "sdp_problem ?h 1 (of_rows [[- 2]]) default_epsilon"
  have c1: "cvxpy_solve ?env1 ''MOSEK'' (sdp_problem ?h 1 (mat_at (Tensor 1 (of_rows [[- 2]])) []) default_epsilon) []
     = (Inr (''unbounded'', None), [(''MOSEK'', ?p1)])"
    by (simp add: sample_env_def recording_solver_def Tensor_def)
  have m1: "in_manifold_eigen ?env1 ?h (Tensor 1 (of_rows [[- 2]])) default_epsilon = Inr True"
    by (simp add: in_manifold_eigen_1x1 default_epsilon_def)
  have 4: "submersion_inv ?env1 ?h (Tensor 1 (of_rows [[- 2]])) True default_epsilon ''MOSEK'' [] =
     (Inl ValueError, [(''MOSEK'', ?p1)])"
    using sdp_feasibility_problem [of ?h 1 _ default_epsilon _ _ _ "Tensor 1 (of_rows [[- 2]])" ?env1
        "''MOSEK''" "[]" "''unbounded''" None "[(''MOSEK'', ?p1)]"] c1 m1
    by (simp add: Tensor_def)
  show ?thesis using 1 2 3 4 by (intro conjI)
qed

section \<open>The checks of the sub-manifolds\<close>

lemma margin_1x1:
  fixes p :: real
  assumes "0 \<le> p"
  shows "- (2 / 10 ^ 7) * p \<le> - (1 / 10 ^ 8) * p" and "1 / 10 ^ 8 * p \<le> p"
proof -
  have "- (2 / 10000000) * p \<le> - (1 / 100000000) * p" "1 / 100000000 * p \<le> p"
    using assms by argo+
  then show "- (2 / 10 ^ 7) * p \<le> - (1 / 10 ^ 8) * p" and "1 / 10 ^ 8 * p \<le> p"
    by simp_all
qed

lemma checked_program_feasible:
  "feasible (sdp_problem (checking_instance 1 1) 1 (of_rows [[- 1 - 1 / 10 ^ 7]]) default_epsilon)
     (of_rows [[1]])"
proof -
  let ?h = "checking_instance 1 1"
  let ?A = "of_rows [[- 1 - 1 / 10 ^ 7]]"
  let ?P = "of_rows [[1]]"
  have L: "lyapunov_expr ?h 1 ?A ?P 0 0 = - (2 / 10 ^ 7)"
    by (simp add: lyapunov_expr_entry of_rows_def checking_instance_def)
  have Pe: "?P 0 0 = 1"
    by (simp add: of_rows_def)
  have q: "quad 1 M x = M 0 0 * (x 0 * x 0)" for M x
    by (simp add: quad_def)
  have sq: "(\<Sum>i<1. x i * x i) = x 0 * x 0" for x :: "nat \<Rightarrow> real"
    by simp
  have psd: "is_psd 1 ?P"
    unfolding is_psd_def is_symmetric_def q Pe by simp
  have a: "quad 1 (lyapunov_expr ?h 1 ?A ?P) x \<le> - default_epsilon * (\<Sum>i<1. x i * x i)" for x
    unfolding q L sq default_epsilon_def by (rule margin_1x1) simp
  have b: "default_epsilon * (\<Sum>i<1. x i * x i) \<le> quad 1 ?P x" for x
    unfolding q Pe sq default_epsilon_def using margin_1x1(2) [of "x 0 * x 0"] by simp
  show ?thesis
    unfolding feasible_sdp_problem using psd a b by (intro conjI allI)
qed

text \<open>
  The claim as stated promises that no \<^verbatim>\<open>InManifoldError\<close> is raised with
  \<open>check_in_manifold=False\<close>. Take an instance over manifolds that check their points
  with the tolerance \<open>1e-6\<close>, \<open>alpha = 1\<close> and the \<open>1 \<times> 1\<close> matrix \<open>-1 - 1e-7\<close>, which passes
  the eigenvalue test, and a solver that answers with the feasible point \<open>P = 1\<close>. The
  recovered \<open>Q\<close> is \<open>2e-7\<close>, below the tolerance of its manifold, and \<open>right_inverse\<close>
  with \<open>check_in_manifold=False\<close> raises \<^verbatim>\<open>InManifoldError\<close> after the solve.
\<close>

theorem unchecked_right_inverse_raises_InManifoldError:
  "in_manifold_eigen (sample_env [''MOSEK''] (Inr (''optimal'', Some (of_rows [[1]]))))
      (checking_instance 1 1) (Tensor 1 (of_rows [[- 1 - 1 / 10 ^ 7]])) default_epsilon = Inr True \<and>
   feasible (sdp_problem (checking_instance 1 1) 1 (of_rows [[- 1 - 1 / 10 ^ 7]]) default_epsilon)
      (of_rows [[1]]) \<and>
   right_inverse (sample_env [''MOSEK''] (Inr (''optimal'', Some (of_rows [[1]]))))
      (checking_instance 1 1) (Tensor 1 (of_rows [[- 1 - 1 / 10 ^ 7]])) False [] =
     (Inl InManifoldError,
      [(''MOSEK'', sdp_problem (checking_instance 1 1) 1 (of_rows [[- 1 - 1 / 10 ^ 7]]) default_epsilon)])"
proof -
  let ?env = "sample_env [''MOSEK''] (Inr (''optimal'', Some (of_rows [[1]])))"
  let ?h = "checking_instance 1 1"
  let ?A = "Tensor 1 (of_rows [[- 1 - 1 / 10 ^ 7]])"
  have 1: "in_manifold_eigen ?env ?h ?A default_epsilon = Inr True"
    by (simp add: in_manifold_eigen_def linalg_eigvals_def batch_of_def nrows_def ncols_def
        checking_instance_def Tensor_def sample_env_def triangular_eigvals_def of_rows_def
        default_epsilon_def)
  have 3: "right_inverse ?env ?h ?A False [] =
     (Inl InManifoldError, [(''MOSEK'', sdp_problem ?h 1 (of_rows [[- 1 - 1 / 10 ^ 7]]) default_epsilon)])"
    by (simp add: right_inverse_def submersion_inv_def solve_and_recover_def Let_def Tensor_def
        nrows_def ncols_def sample_env_def recording_solver_def diagonal_inverse_def of_rows_def
        default_solver_def checking_instance_def checking_manifold_def lyapunov_expr_entry
        m_smul_def)
  show ?thesis using 1 checked_program_feasible 3 by (intro conjI)
qed

section \<open>The arguments of the solver\<close>

lemma solve_and_recover_state:
  "snd (solve_and_recover env h A epsilon solver st) =
     (if size_of A \<noteq> [nrows (size_of A), nrows (size_of A)] then st
      else snd (cvxpy_solve env solver (sdp_problem h (nrows (size_of A)) (mat_at A []) epsilon) st))"
  by (auto simp: solve_and_recover_def Let_def split: prod.splits sum.splits option.splits)

lemma right_inverse_state:
  "snd (right_inverse env h A c st) = snd (submersion_inv env h A c default_epsilon default_solver st)"
  by (auto simp: right_inverse_def split: prod.splits sum.splits list.splits)

text \<open>
  Claim C9, as amended. \<open>submersion_inv\<close> accepts a solver name and a margin \<open>epsilon\<close> and
  hands both to the solver: whenever it calls the solver, it is under the name it was
  given and on the program with the margin it was given. \<open>right_inverse\<close> has no such
  arguments: whenever it calls the solver, it is under the name \<^verbatim>\<open>MOSEK\<close> and on the
  program with the margin \<open>1e-8\<close>. With the membership test off, the solver is called
  exactly when \<open>A\<close> is a square matrix.
\<close>

theorem right_inverse_solver_arguments:
  "default_solver = ''MOSEK'' \<and> default_epsilon = 1 / 10 ^ 8 \<and>
   snd (submersion_inv env h A False epsilon solver st) =
     (if size_of A \<noteq> [nrows (size_of A), nrows (size_of A)] then st
      else snd (cvxpy_solve env solver (sdp_problem h (nrows (size_of A)) (mat_at A []) epsilon) st)) \<and>
   snd (right_inverse env h A False st) =
     (if size_of A \<noteq> [nrows (size_of A), nrows (size_of A)] then st
      else snd (cvxpy_solve env ''MOSEK'' (sdp_problem h (nrows (size_of A)) (mat_at A []) (1 / 10 ^ 8)) st)) \<and>
   (snd (submersion_inv env h A True epsilon solver st) = st \<or>
    snd (submersion_inv env h A True epsilon solver st) =
      snd (cvxpy_solve env solver (sdp_problem h (nrows (size_of A)) (mat_at A []) epsilon) st)) \<and>
   (snd (right_inverse env h A True st) = st \<or>
    snd (right_inverse env h A True st) =
      snd (cvxpy_solve env ''MOSEK'' (sdp_problem h (nrows (size_of A)) (mat_at A []) (1 / 10 ^ 8)) st))"
proof -
  have a: "snd (submersion_inv env h A False eps' s st) = snd (solve_and_recover env h A eps' s st)"
    for eps' s
    by (simp add: submersion_inv_def)
  have b: "snd (submersion_inv env h A True eps' s st) = st \<or>
    snd (submersion_inv env h A True eps' s st) = snd (solve_and_recover env h A eps' s st)"
    for eps' s
    by (simp add: submersion_inv_def split: sum.splits)
  have c: "snd (solve_and_recover env h A eps' s st) = st \<or>
     snd (solve_and_recover env h A eps' s st) =
       snd (cvxpy_solve env s (sdp_problem h (nrows (size_of A)) (mat_at A []) eps') st)" for eps' s
    by (simp add: solve_and_recover_state)
  have d: "default_solver = ''MOSEK''" "default_epsilon = 1 / 10 ^ 8"
    by (simp_all add: default_solver_def default_epsilon_def)
  have 3: "snd (submersion_inv env h A False epsilon solver st) =
     (if size_of A \<noteq> [nrows (size_of A), nrows (size_of A)] then st
      else snd (cvxpy_solve env solver (sdp_problem h (nrows (size_of A)) (mat_at A []) epsilon) st))"
    by (simp only: a solve_and_recover_state)
  have 4: "snd (right_inverse env h A False st) =
     (if size_of A \<noteq> [nrows (size_of A), nrows (size_of A)] then st
      else snd (cvxpy_solve env ''MOSEK'' (sdp_problem h (nrows (size_of A)) (mat_at A []) (1 / 10 ^ 8)) st))"
    by (simp only: right_inverse_state a solve_and_recover_state d)
  have 5: "snd (submersion_inv env h A True epsilon solver st) = st \<or>
    snd (submersion_inv env h A True epsilon solver st) =
      snd (cvxpy_solve env solver (sdp_problem h (nrows (size_of A)) (mat_at A []) epsilon) st)"
    using b [of epsilon solver] c [of epsilon solver] by auto
  have 6: "snd (right_inverse env h A True st) = st \<or>
    snd (right_inverse env h A True st) =
      snd (cvxpy_solve env ''MOSEK'' (sdp_problem h (nrows (size_of A)) (mat_at A []) (1 / 10 ^ 8)) st)"
    using b [of default_epsilon default_solver] c [of default_epsilon default_solver]
    by (auto simp: right_inverse_state d)
  show ?thesis using d 3 4 5 6 by (intro conjI)
qed

theorem right_inverse_solver_arguments_witness:
  "snd (right_inverse (sample_env [''MOSEK''] (Inr (''optimal'', Some (of_rows [[1]]))))
          (sample_instance 1 1) (Tensor 1 (of_rows [[- 2]])) False []) =
     [(''MOSEK'', sdp_problem (sample_instance 1 1) 1 (of_rows [[- 2]]) (1 / 10 ^ 8))] \<and>
   snd (submersion_inv (sample_env [''SCS''] (Inr (''optimal'', Some (of_rows [[1]]))))
          (sample_instance 1 1) (Tensor 1 (of_rows [[- 2]])) False (1 / 10 ^ 3) ''SCS'' []) =
     [(''SCS'', sdp_problem (sample_instance 1 1) 1 (of_rows [[- 2]]) (1 / 10 ^ 3))]"
proof -
  let ?h = "sample_instance 1 1"
  let ?A = "Tensor 1 (of_rows [[- 2]])"
  note T1 = right_inverse_solver_arguments
    [of "sample_env [''MOSEK''] (Inr (''optimal'', Some (of_rows [[1]])))" ?h ?A "1 / 10 ^ 8" "''MOSEK''" "[]"]
  note T2 = right_inverse_solver_arguments
    [of "sample_env [''SCS''] (Inr (''optimal'', Some (of_rows [[1]])))" ?h ?A "1 / 10 ^ 3" "''SCS''" "[]"]
  have 1: "snd (right_inverse (sample_env [''MOSEK''] (Inr (''optimal'', Some (of_rows [[1]]))))
          ?h ?A False []) = [(''MOSEK'', sdp_problem ?h 1 (of_rows [[- 2]]) (1 / 10 ^ 8))]"
    using T1 [THEN conjunct2, THEN conjunct2, THEN conjunct2, THEN conjunct1]
    by (simp add: Tensor_def nrows_def sample_env_def recording_solver_def)
  have 2: "snd (submersion_inv (sample_env [''SCS''] (Inr (''optimal'', Some (of_rows [[1]]))))
          ?h ?A False (1 / 10 ^ 3) ''SCS'' []) = [(''SCS'', sdp_problem ?h 1 (of_rows [[- 2]]) (1 / 10 ^ 3))]"
    using T2 [THEN conjunct2, THEN conjunct2, THEN conjunct1]
    by (simp add: Tensor_def nrows_def sample_env_def recording_solver_def)
  show ?thesis using 1 2 by (intro conjI)
qed

text \<open>
  The claim as stated fails where only the solver \<^verbatim>\<open>SCS\<close> is installed: \<open>right_inverse\<close>
  asks for \<^verbatim>\<open>MOSEK\<close> with the margin \<open>1e-8\<close> and ends in \<^verbatim>\<open>SolverError\<close>, and its caller has
  no argument to ask for another solver or margin; \<open>submersion_inv\<close>, called on the same
  matrix with \<^verbatim>\<open>solver="SCS"\<close> and \<^verbatim>\<open>epsilon=1e-3\<close>, returns.
\<close>

theorem right_inverse_cannot_select_solver:
  "fst (right_inverse (sample_env [''SCS''] (Inr (''optimal'', Some (of_rows [[1]]))))
          (sample_instance 1 1) (Tensor 1 (of_rows [[- 2]])) True []) = Inl SolverError \<and>
   snd (right_inverse (sample_env [''SCS''] (Inr (''optimal'', Some (of_rows [[1]]))))
          (sample_instance 1 1) (Tensor 1 (of_rows [[- 2]])) True []) =
     [(''MOSEK'', sdp_problem (sample_instance 1 1) 1 (of_rows [[- 2]]) (1 / 10 ^ 8))] \<and>
   \<not> isl (fst (submersion_inv (sample_env [''SCS''] (Inr (''optimal'', Some (of_rows [[1]]))))
          (sample_instance 1 1) (Tensor 1 (of_rows [[- 2]])) True (1 / 10 ^ 3) ''SCS'' [])) \<and>
   snd (submersion_inv (sample_env [''SCS''] (Inr (''optimal'', Some (of_rows [[1]]))))
          (sample_instance 1 1) (Tensor 1 (of_rows [[- 2]])) True (1 / 10 ^ 3) ''SCS'' []) =
     [(''SCS'', sdp_problem (sample_instance 1 1) 1 (of_rows [[- 2]]) (1 / 10 ^ 3))]"
proof -
  let ?env = "sample_env [''SCS''] (Inr (''optimal'', Some (of_rows [[1]])))"
  let ?h = "sample_instance 1 1"
  let ?A = "Tensor 1 (of_rows [[- 2]])"
  have m: "in_manifold_eigen ?env ?h ?A default_epsilon = Inr True"
    "in_manifold_eigen ?env ?h ?A (1 / 10 ^ 3) = Inr True"
    by (simp_all add: in_manifold_eigen_1x1 default_epsilon_def)
  have s1: "solve_and_recover ?env ?h ?A default_epsilon default_solver [] =
     (Inl SolverError, [(''MOSEK'', sdp_problem ?h 1 (of_rows [[- 2]]) (1 / 10 ^ 8))])"
    by (simp add: solve_and_recover_def Tensor_def nrows_def sample_env_def recording_solver_def
        default_solver_def default_epsilon_def)
  have s2: "\<not> isl (fst (solve_and_recover ?env ?h ?A (1 / 10 ^ 3) ''SCS'' []))"
    "snd (solve_and_recover ?env ?h ?A (1 / 10 ^ 3) ''SCS'' []) =
       [(''SCS'', sdp_problem ?h 1 (of_rows [[- 2]]) (1 / 10 ^ 3))]"
    by (simp_all add: solve_and_recover_def Let_def Tensor_def nrows_def sample_env_def
        recording_solver_def diagonal_inverse_def of_rows_def)
  have r1: "right_inverse ?env ?h ?A True [] =
     (Inl SolverError, [(''MOSEK'', sdp_problem ?h 1 (of_rows [[- 2]]) (1 / 10 ^ 8))])"
    unfolding right_inverse_def submersion_inv_def m s1 by simp
  have r2: "submersion_inv ?env ?h ?A True (1 / 10 ^ 3) ''SCS'' [] =
     solve_and_recover ?env ?h ?A (1 / 10 ^ 3) ''SCS'' []"
    unfolding submersion_inv_def m by simp
  show ?thesis
    unfolding r1 r2 using s2 by simp
qed

section \<open>The two tolerances\<close>

lemma in_manifold_eigen_single:
  assumes "self_tensorial_size h = []"
  shows "in_manifold_eigen env h (Tensor n M) eps =
           Inr (\<forall>ev\<in>set (torch_eigvals env n M). Re ev \<le> - self_alpha h + eps)"
  using assms
  by (simp add: in_manifold_eigen_def linalg_eigvals_def Tensor_def batch_of_def nrows_def ncols_def
      list_all_iff)

lemma in_manifold_eigen_mono:
  assumes "in_manifold_eigen env h A eps1 = Inr True" and "eps1 \<le> eps2"
  shows "in_manifold_eigen env h A eps2 = Inr True"
proof -
  have b: "batch_of (size_of A) = self_tensorial_size h"
    using assms(1) by (auto simp: in_manifold_eigen_def split: if_splits)
  obtain eig where e: "linalg_eigvals env A = Inr eig"
    using assms(1) b by (auto simp: in_manifold_eigen_def split: sum.splits)
  have "list_all (\<lambda>r. r \<le> - self_alpha h + eps1) (map Re eig)"
    using assms(1) b e by (simp add: in_manifold_eigen_def)
  then have "list_all (\<lambda>r. r \<le> - self_alpha h + eps2) (map Re eig)"
    using assms(2) by (auto simp: list_all_iff)
  then show ?thesis
    using b e by (simp add: in_manifold_eigen_def)
qed

text \<open>
  Claim C10. The test inside \<open>right_inverse\<close> runs with the tolerance \<open>1e-8\<close>, the default
  of \<open>epsilon\<close> in \<open>submersion_inv\<close>, which is smaller than the default \<open>1e-6\<close> of
  \<open>in_manifold_eigen\<close>: a tensor that passes at \<open>1e-8\<close> passes at \<open>1e-6\<close>, and one that
  fails at \<open>1e-8\<close> makes \<open>right_inverse\<close> raise \<^verbatim>\<open>InManifoldError\<close>. So on an instance
  without batch dimensions the matrix \<open>(-alpha + 5e-7) I\<close>, whose only eigenvalue is
  \<open>-alpha + 5e-7\<close>, passes the test called with its default tolerance, and
  \<open>right_inverse\<close> raises \<^verbatim>\<open>InManifoldError\<close> on it.
\<close>

theorem precheck_tolerance_gap:
  "default_epsilon = 1 / 10 ^ 8 \<and> default_eps = 1 / 10 ^ 6 \<and> default_epsilon < default_eps \<and>
   (in_manifold_eigen env h A default_epsilon = Inr True \<longrightarrow>
      in_manifold_eigen env h A default_eps = Inr True) \<and>
   (in_manifold_eigen env h A default_epsilon = Inr False \<longrightarrow>
      right_inverse env h A True st = (Inl InManifoldError, st)) \<and>
   (self_tensorial_size h = [] \<and> 0 < n \<and>
    set (torch_eigvals env n (m_smul (- self_alpha h + 5 / 10 ^ 7) m_eye)) =
      {complex_of_real (- self_alpha h + 5 / 10 ^ 7)} \<longrightarrow>
      in_manifold_eigen env h (Tensor n (m_smul (- self_alpha h + 5 / 10 ^ 7) m_eye)) default_eps
        = Inr True \<and>
      right_inverse env h (Tensor n (m_smul (- self_alpha h + 5 / 10 ^ 7) m_eye)) True st
        = (Inl InManifoldError, st))"
proof -
  have d: "default_epsilon = 1 / 10 ^ 8" "default_eps = 1 / 10 ^ 6" "default_epsilon < default_eps"
    by (simp_all add: default_epsilon_def default_eps_def)
  have g: "right_inverse env h B True st = (Inl InManifoldError, st)"
    if "in_manifold_eigen env h B default_epsilon = Inr False" for B
    using that by (simp add: right_inverse_def submersion_inv_def)
  have m: "in_manifold_eigen env h A default_eps = Inr True"
    if "in_manifold_eigen env h A default_epsilon = Inr True"
    using in_manifold_eigen_mono [OF that] d(3) by simp
  have e: "in_manifold_eigen env h (Tensor n (m_smul (- self_alpha h + 5 / 10 ^ 7) m_eye)) default_eps
        = Inr True \<and>
      right_inverse env h (Tensor n (m_smul (- self_alpha h + 5 / 10 ^ 7) m_eye)) True st
        = (Inl InManifoldError, st)"
    if "self_tensorial_size h = [] \<and> 0 < n \<and>
        set (torch_eigvals env n (m_smul (- self_alpha h + 5 / 10 ^ 7) m_eye)) =
          {complex_of_real (- self_alpha h + 5 / 10 ^ 7)}"
  proof -
    let ?M = "m_smul (- self_alpha h + 5 / 10 ^ 7) m_eye"
    have 1: "in_manifold_eigen env h (Tensor n ?M) default_eps = Inr True"
      using that by (simp add: in_manifold_eigen_single d)
    have 2: "in_manifold_eigen env h (Tensor n ?M) default_epsilon = Inr False"
      using that by (simp add: in_manifold_eigen_single d)
    show ?thesis using 1 g [OF 2] by simp
  qed
  show ?thesis using d g [of A] m e by blast
qed

theorem precheck_tolerance_gap_witness:
  "in_manifold_eigen (sample_env [''MOSEK''] (Inr (''optimal'', Some (of_rows [[1]]))))
     (sample_instance 1 1) (Tensor 1 (m_smul (- 1 + 5 / 10 ^ 7) m_eye)) default_eps = Inr True \<and>
   right_inverse (sample_env [''MOSEK''] (Inr (''optimal'', Some (of_rows [[1]]))))
     (sample_instance 1 1) (Tensor 1 (m_smul (- 1 + 5 / 10 ^ 7) m_eye)) True [] = (Inl InManifoldError, [])"
proof -
  let ?env = "sample_env [''MOSEK''] (Inr (''optimal'', Some (of_rows [[1]])))"
  let ?h = "sample_instance 1 1"
  have a: "self_alpha ?h = 1" "self_tensorial_size ?h = []"
    by (simp_all add: sample_instance_def)
  have b: "set (torch_eigvals ?env 1 (m_smul (- self_alpha ?h + 5 / 10 ^ 7) m_eye)) =
      {complex_of_real (- self_alpha ?h + 5 / 10 ^ 7)}"
    by (simp add: sample_env_def triangular_eigvals_def m_smul_def m_eye_def)
  note T = precheck_tolerance_gap [of ?env ?h _ _ 1, THEN conjunct2, THEN conjunct2, THEN conjunct2,
      THEN conjunct2, THEN conjunct2]
  have "in_manifold_eigen ?env ?h (Tensor 1 (m_smul (- self_alpha ?h + 5 / 10 ^ 7) m_eye)) default_eps
        = Inr True \<and>
      right_inverse ?env ?h (Tensor 1 (m_smul (- self_alpha ?h + 5 / 10 ^ 7) m_eye)) True []
        = (Inl InManifoldError, [])"
    using T [of "[]"] a(2) b by blast
  then show ?thesis unfolding a(1) .
qed

section \<open>Quadratic forms\<close>

text \<open>
  The facts of linear algebra the stability of the produced matrices rests on: a
  symmetric positive semidefinite matrix annihilates the vectors on which its quadratic
  form vanishes, \<open>X X\<^sup>T\<close> is positive semidefinite, and the quadratic form of a
  skew-symmetric matrix is zero.
\<close>

lemma quad_dot: "quad n M x = dot n x (mv n M x)"
  by (simp add: quad_def dot_def mv_def sum_distrib_left mult.assoc)

lemma dot_commute: "dot n x y = dot n y x"
  by (simp add: dot_def mult.commute)

lemma dot_mv_sym:
  assumes "is_symmetric n M"
  shows "dot n x (mv n M y) = dot n y (mv n M x)"
proof -
  have "dot n x (mv n M y) = (\<Sum>i<n. \<Sum>j<n. x i * M i j * y j)"
    by (simp add: dot_def mv_def sum_distrib_left mult.assoc)
  also have "\<dots> = (\<Sum>j<n. \<Sum>i<n. x i * M i j * y j)"
    by (rule sum.swap)
  also have "\<dots> = (\<Sum>j<n. \<Sum>i<n. y j * M j i * x i)"
    using assms by (intro sum.cong refl) (simp add: is_symmetric_def mult_ac)
  also have "\<dots> = dot n y (mv n M x)"
    by (simp add: dot_def mv_def sum_distrib_left mult.assoc)
  finally show ?thesis .
qed

lemma mv_line: "mv n M (\<lambda>i. x i + t * y i) = (\<lambda>k. mv n M x k + t * mv n M y k)"
  by (rule ext) (simp add: mv_def algebra_simps sum.distrib sum_distrib_left)

lemma dot_line_right: "dot n x (\<lambda>i. y i + t * z i) = dot n x y + t * dot n x z"
  by (simp add: dot_def algebra_simps sum.distrib sum_distrib_left)

lemma dot_line_left: "dot n (\<lambda>i. x i + t * y i) z = dot n x z + t * dot n y z"
  by (simp add: dot_def algebra_simps sum.distrib sum_distrib_left)

lemma quad_line:
  assumes "is_symmetric n M"
  shows "quad n M (\<lambda>i. x i + t * y i) =
           quad n M x + 2 * t * dot n y (mv n M x) + t * t * quad n M y"
proof -
  have "quad n M (\<lambda>i. x i + t * y i) =
      dot n x (mv n M x) + t * dot n y (mv n M x) + t * (dot n x (mv n M y) + t * dot n y (mv n M y))"
    by (simp only: quad_dot mv_line dot_line_right dot_line_left)
  also have "dot n x (mv n M y) = dot n y (mv n M x)"
    by (rule dot_mv_sym [OF assms])
  finally show ?thesis
    by (simp add: quad_dot algebra_simps)
qed

lemma dot_unit: "i < n \<Longrightarrow> dot n (\<lambda>j. if j = i then 1 else 0) y = y i"
  by (simp add: dot_def if_distrib [of "\<lambda>z. z * _"] cong: if_cong)

lemma psd_kernel:
  assumes psd: "is_psd n M" and zero: "quad n M x = 0" and i: "i < n"
  shows "mv n M x i = 0"
proof -
  let ?e = "\<lambda>j. if j = i then 1 else 0 :: real"
  define g where "g = mv n M x i"
  define p where "p = quad n M ?e"
  have sym: "is_symmetric n M" and nonneg: "\<And>y. 0 \<le> quad n M y"
    using psd by (simp_all add: is_psd_def)
  have p0: "0 \<le> p"
    unfolding p_def by (rule nonneg)
  have line: "0 \<le> 2 * t * g + t * t * p" for t
    using nonneg [of "\<lambda>j. x j + t * ?e j"] quad_line [OF sym, of x t ?e] zero dot_unit [OF i, of "mv n M x"]
    by (simp add: g_def p_def)
  have "g = 0"
  proof (rule ccontr)
    assume g: "g \<noteq> 0"
    have gg: "0 < g * g" using g by (cases "0 < g") (simp_all add: zero_less_mult_iff)
    show False
    proof (cases "p = 0")
      case True
      then show ?thesis using line [of "- g"] gg by simp
    next
      case False
      then have pp: "0 < p" using p0 by simp
      have "0 \<le> 2 * (- g / p) * g + (- g / p) * (- g / p) * p"
        by (rule line)
      also have "\<dots> = - (g * g) / p"
        using pp by (simp add: field_simps)
      finally have "0 \<le> - (g * g) / p" .
      moreover have "0 < g * g / p" using gg pp by simp
      ultimately show False by simp
    qed
  qed
  then show ?thesis by (simp add: g_def)
qed


lemma dot_cong: "(\<And>i. i < n \<Longrightarrow> y i = z i) \<Longrightarrow> dot n x y = dot n x z"
  by (simp add: dot_def)

lemma stable_real:
  assumes psd: "is_psd n P" and neg: "\<And>x. quad n K x \<le> 0"
    and re: "\<And>i. i < n \<Longrightarrow> mv n P (mv n K a) i = s * a i - t * b i"
    and im: "\<And>i. i < n \<Longrightarrow> mv n P (mv n K b) i = s * b i + t * a i"
    and nz: "\<exists>i<n. a i \<noteq> 0 \<or> b i \<noteq> 0"
  shows "s \<le> 0"
proof -
  define wa where "wa = mv n K a"
  define wb where "wb = mv n K b"
  define c where "c = quad n K a + quad n K b"
  define d where "d = dot n wb a - dot n wa b"
  define r where "r = quad n P wa + quad n P wb"
  have sym: "is_symmetric n P" and nonneg: "\<And>y. 0 \<le> quad n P y"
    using psd by (simp_all add: is_psd_def)
  have c0: "c \<le> 0"
    using neg [of a] neg [of b] by (simp add: c_def)
  have r0: "0 \<le> r"
    using nonneg [of wa] nonneg [of wb] by (simp add: r_def)
  have pa: "dot n x (mv n P wa) = s * dot n x a - t * dot n x b" for x
  proof -
    have "dot n x (mv n P wa) = dot n x (\<lambda>i. s * a i - t * b i)"
      unfolding wa_def by (rule dot_cong) (rule re)
    then show ?thesis
      by (simp add: dot_def algebra_simps sum.distrib sum_subtractf sum_distrib_left)
  qed
  have pb: "dot n x (mv n P wb) = s * dot n x b + t * dot n x a" for x
  proof -
    have "dot n x (mv n P wb) = dot n x (\<lambda>i. s * b i + t * a i)"
      unfolding wb_def by (rule dot_cong) (rule im)
    then show ?thesis
      by (simp add: dot_def algebra_simps sum.distrib sum_distrib_left)
  qed
  have ka: "dot n wa a = quad n K a"
    by (simp add: quad_dot wa_def dot_commute)
  have kb: "dot n wb b = quad n K b"
    by (simp add: quad_dot wb_def dot_commute)
  have 1: "r = s * c + t * d"
    by (simp add: r_def quad_dot pa pb ka kb c_def d_def algebra_simps)
  have "dot n wa (mv n P wb) = dot n wb (mv n P wa)"
    by (rule dot_mv_sym [OF sym])
  then have 2: "t * c = s * d"
    by (simp add: pa pb ka kb c_def d_def algebra_simps)
  have "r * c = s * (c * c) + d * (t * c)"
    by (simp add: 1 algebra_simps)
  also have "\<dots> = s * (c * c) + d * (s * d)"
    by (simp only: 2)
  finally have 3: "r * c = s * (c * c + d * d)"
    by (simp add: algebra_simps)
  show ?thesis
  proof (cases "c * c + d * d = 0")
    case False
    have "0 \<le> c * c + d * d" by simp
    with False have pos: "0 < c * c + d * d" by (simp only: less_le) simp
    have "r * c \<le> 0"
      using r0 c0 by (rule mult_nonneg_nonpos)
    then have "s * (c * c + d * d) \<le> 0"
      by (simp only: 3)
    then show ?thesis
      using pos by (simp add: mult_le_0_iff)
  next
    case True
    then have "c = 0" "d = 0"
      by (simp_all add: sum_squares_eq_zero_iff)
    then have "r = 0" by (simp add: 1)
    then have za: "quad n P wa = 0" and zb: "quad n P wb = 0"
      using nonneg [of wa] nonneg [of wb] by (simp_all add: r_def)
    obtain i where i: "i < n" and ab: "a i \<noteq> 0 \<or> b i \<noteq> 0"
      using nz by blast
    have e1: "s * a i - t * b i = 0"
      using psd_kernel [OF psd za i] re [OF i] by (simp add: wa_def)
    have e2: "s * b i + t * a i = 0"
      using psd_kernel [OF psd zb i] im [OF i] by (simp add: wb_def)
    have "(s * s + t * t) * a i = s * (s * a i - t * b i) + t * (s * b i + t * a i)"
      by (simp add: algebra_simps)
    then have f1: "(s * s + t * t) * a i = 0"
      by (simp add: e1 e2)
    have "(s * s + t * t) * b i = s * (s * b i + t * a i) - t * (s * a i - t * b i)"
      by (simp add: algebra_simps)
    then have f2: "(s * s + t * t) * b i = 0"
      by (simp add: e1 e2)
    from f1 f2 ab have "s * s + t * t = 0"
      by auto
    then have "s = 0"
      by (simp add: sum_squares_eq_zero_iff)
    then show ?thesis by simp
  qed
qed


lemma mv_mv: "mv n P (mv n K x) i = (\<Sum>j<n. (\<Sum>k<n. P i k * K k j) * x j)"
proof -
  have "mv n P (mv n K x) i = (\<Sum>k<n. \<Sum>j<n. P i k * K k j * x j)"
    by (simp add: mv_def sum_distrib_left mult.assoc)
  also have "\<dots> = (\<Sum>j<n. \<Sum>k<n. P i k * K k j * x j)"
    by (rule sum.swap)
  finally show ?thesis
    by (simp add: sum_distrib_right)
qed

lemma shifted_product_row:
  assumes A: "\<And>j. j < n \<Longrightarrow> A i j = (\<Sum>k<n. P i k * K k j) - alpha * (if i = j then 1 else 0)"
    and i: "i < n"
  shows "(\<Sum>j<n. A i j * x j) = mv n P (mv n K x) i - alpha * x i"
proof -
  have "(\<Sum>j<n. A i j * x j) =
        (\<Sum>j<n. (\<Sum>k<n. P i k * K k j) * x j - (if i = j then alpha * x j else 0))"
    by (intro sum.cong refl) (simp add: A algebra_simps)
  also have "\<dots> = (\<Sum>j<n. (\<Sum>k<n. P i k * K k j) * x j) - (\<Sum>j<n. if i = j then alpha * x j else 0)"
    by (rule sum_subtractf)
  also have "(\<Sum>j<n. if i = j then alpha * x j else 0) = alpha * x i"
    using i by simp
  finally show ?thesis
    by (simp add: mv_mv)
qed

lemma eigenvalue_of_stable_product:
  assumes psd: "is_psd n P" and neg: "\<And>x. quad n K x \<le> 0"
    and A: "\<And>i j. i < n \<Longrightarrow> j < n \<Longrightarrow>
              A i j = (\<Sum>k<n. P i k * K k j) - alpha * (if i = j then 1 else 0)"
    and ev: "is_eigenvalue n A ev"
  shows "Re ev \<le> - alpha"
proof -
  obtain v where nz: "\<exists>i<n. v i \<noteq> 0"
    and eq: "\<And>i. i < n \<Longrightarrow> (\<Sum>j<n. complex_of_real (A i j) * v j) = ev * v i"
    using ev by (auto simp: is_eigenvalue_def)
  define a where "a = (\<lambda>i. Re (v i))"
  define b where "b = (\<lambda>i. Im (v i))"
  have re: "mv n P (mv n K a) i = (Re ev + alpha) * a i - Im ev * b i" if i: "i < n" for i
  proof -
    have "(\<Sum>j<n. A i j * a j) = Re (\<Sum>j<n. complex_of_real (A i j) * v j)"
      by (simp add: a_def)
    also have "\<dots> = Re ev * a i - Im ev * b i"
      by (simp add: eq [OF i] a_def b_def)
    finally show ?thesis
      using shifted_product_row [of n A i P K alpha a, OF A [OF i] i] by (simp add: algebra_simps)
  qed
  have im: "mv n P (mv n K b) i = (Re ev + alpha) * b i + Im ev * a i" if i: "i < n" for i
  proof -
    have "(\<Sum>j<n. A i j * b j) = Im (\<Sum>j<n. complex_of_real (A i j) * v j)"
      by (simp add: b_def)
    also have "\<dots> = Re ev * b i + Im ev * a i"
      by (simp add: eq [OF i] a_def b_def)
    finally show ?thesis
      using shifted_product_row [of n A i P K alpha b, OF A [OF i] i] by (simp add: algebra_simps)
  qed
  have nz': "\<exists>i<n. a i \<noteq> 0 \<or> b i \<noteq> 0"
    using nz by (auto simp: a_def b_def complex_eq_iff)
  have "Re ev + alpha \<le> 0"
    by (rule stable_real [OF psd neg re im nz'])
  then show ?thesis by simp
qed

section \<open>Stability of the produced matrices\<close>

lemma gram_psd: "is_psd n (\<lambda>i j. \<Sum>k<m. X i k * X j k)"
proof -
  have "quad n (\<lambda>i j. \<Sum>k<m. X i k * X j k) x = (\<Sum>k<m. (\<Sum>i<n. x i * X i k) * (\<Sum>i<n. x i * X i k))" for x
  proof -
    have e: "x i * (\<Sum>k<m. X i k * X j k) * x j = (\<Sum>k<m. (x i * X i k) * (x j * X j k))" for i j
    proof -
      have "x i * (\<Sum>k<m. X i k * X j k) * x j = (\<Sum>k<m. x i * (X i k * X j k) * x j)"
        by (simp only: sum_distrib_left sum_distrib_right)
      also have "\<dots> = (\<Sum>k<m. (x i * X i k) * (x j * X j k))"
        by (intro sum.cong refl) (simp only: mult_ac)
      finally show ?thesis .
    qed
    have "quad n (\<lambda>i j. \<Sum>k<m. X i k * X j k) x = (\<Sum>i<n. \<Sum>j<n. \<Sum>k<m. (x i * X i k) * (x j * X j k))"
      unfolding quad_def by (simp only: e)
    also have "\<dots> = (\<Sum>i<n. \<Sum>k<m. \<Sum>j<n. (x i * X i k) * (x j * X j k))"
      by (intro sum.cong refl) (rule sum.swap)
    also have "\<dots> = (\<Sum>k<m. \<Sum>i<n. \<Sum>j<n. (x i * X i k) * (x j * X j k))"
      by (rule sum.swap)
    also have "\<dots> = (\<Sum>k<m. (\<Sum>i<n. x i * X i k) * (\<Sum>i<n. x i * X i k))"
      by (simp only: sum_product)
    finally show ?thesis .
  qed
  then have "0 \<le> quad n (\<lambda>i j. \<Sum>k<m. X i k * X j k) x" for x
    by (simp only: sum_nonneg zero_le_square)
  moreover have "is_symmetric n (\<lambda>i j. \<Sum>k<m. X i k * X j k)"
    unfolding is_symmetric_def by (intro allI impI sum.cong refl) (rule mult.commute)
  ultimately show ?thesis by (simp add: is_psd_def)
qed

lemma quad_skew:
  assumes "is_skew n S"
  shows "quad n S x = 0"
proof -
  have "quad n S x = (\<Sum>j<n. \<Sum>i<n. x i * S i j * x j)"
    unfolding quad_def by (rule sum.swap)
  also have "\<dots> = (\<Sum>j<n. \<Sum>i<n. - (x j * S j i * x i))"
  proof (intro sum.cong refl)
    fix j i assume "j \<in> {..<n}" "i \<in> {..<n}"
    then have "S i j = - S j i"
      using assms unfolding is_skew_def by blast
    then show "x i * S i j * x j = - (x j * S j i * x i)"
      by (simp only: mult_ac mult_minus_left mult_minus_right)
  qed
  also have "\<dots> = - quad n S x"
    by (simp add: quad_def sum_negf)
  finally show ?thesis by simp
qed

lemma quad_half_psd_plus_skew:
  assumes "is_psd n Q" and "is_skew n S"
  shows "quad n (\<lambda>i j. - (1 / 2) * Q i j + S i j) x \<le> 0"
proof -
  have "quad n (\<lambda>i j. - (1 / 2) * Q i j + S i j) x =
        (\<Sum>i<n. \<Sum>j<n. (- (1 / 2)) * (x i * Q i j * x j) + x i * S i j * x j)"
    unfolding quad_def by (intro sum.cong refl) (simp add: algebra_simps)
  also have "\<dots> = (- (1 / 2)) * quad n Q x + quad n S x"
    unfolding quad_def by (simp only: sum.distrib sum_distrib_left)
  finally have "quad n (\<lambda>i j. - (1 / 2) * Q i j + S i j) x = (- (1 / 2)) * quad n Q x + quad n S x" .
  moreover have "0 \<le> quad n Q x"
    using assms(1) by (simp add: is_psd_def)
  ultimately show ?thesis
    using quad_skew [OF assms(2), of x] by simp
qed

lemma antisym_skew: "is_skew n (\<lambda>i j. X i j - X j i)"
  by (simp add: is_skew_def)

lemma in_manifold_eigen_stable:
  assumes sz: "size_of A = self_tensorial_size h @ [n, n]"
    and ent: "\<And>b i j. b \<in> set (batch_indices (self_tensorial_size h)) \<Longrightarrow> i < n \<Longrightarrow> j < n \<Longrightarrow>
        mat_at A b i j = (\<Sum>k<n. P b i k * K b k j) - self_alpha h * (if i = j then 1 else 0)"
    and psd: "\<And>b. b \<in> set (batch_indices (self_tensorial_size h)) \<Longrightarrow> is_psd n (P b)"
    and neg: "\<And>b x. b \<in> set (batch_indices (self_tensorial_size h)) \<Longrightarrow> quad n (K b) x \<le> 0"
    and sound: "eigvals_sound env A" and eps: "0 \<le> eps"
  shows "in_manifold_eigen env h A eps = Inr True"
proof -
  have "Re ev \<le> - self_alpha h + eps"
    if b: "b \<in> set (batch_indices (self_tensorial_size h))"
      and ev: "ev \<in> set (torch_eigvals env n (mat_at A b))" for b ev
  proof -
    have "is_eigenvalue n (mat_at A b) ev"
      using sound b ev by (simp add: eigvals_sound_def sz)
    then have "Re ev \<le> - self_alpha h"
      using psd [OF b] neg [OF b] ent [OF b]
      by (intro eigenvalue_of_stable_product [where P = "P b" and K = "K b" and A = "mat_at A b" and n = n])
    then show ?thesis using eps by simp
  qed
  then show ?thesis
    by (simp add: in_manifold_eigen_def linalg_eigvals_def sz list_all_iff)
qed

lemma submersion_entry:
  "mat_at (submersion h Q P S) b i j =
     (\<Sum>k<ncols (size_of P). mat_at P b i k * (- (1 / 2) * mat_at Q b k j + mat_at S b k j))
       - self_alpha h * mat_at (self_In h) b i j"
  by (simp add: submersion_def t_sub_def t_matmul_def t_add_def t_smul_def)

lemma submersion_size:
  assumes "size_of Q = T @ [n, n]" "size_of P = T @ [n, n]" "size_of S = T @ [n, n]"
    and "self_In h = eye n'"
  shows "size_of (submersion h Q P S) = T @ [n, n]"
  using assms
  by (simp add: submersion_def t_sub_def t_matmul_def t_add_def t_smul_def eye_def)

lemma forward_in_manifold:
  assumes inst: "Hurwitz cls sz alpha triv = Inr h" and eps: "0 \<le> eps"
    and M: "PSD cls sz triv = Inr M"
    and Q: "Q = m_forward M X1" and P: "P = m_forward M X2"
    and S: "S = m_forward (Skew cls) X3"
    and sizes: "size_of Q = sz" "size_of P = sz" "size_of S = sz"
    and mani: "\<And>b. b \<in> set (batch_indices (self_tensorial_size h)) \<Longrightarrow>
        is_psd (self_n h) (mat_at Q b) \<and> is_psd (self_n h) (mat_at P b) \<and> is_skew (self_n h) (mat_at S b)"
    and sound: "eigvals_sound env (submersion h Q P S)"
  shows "forward h X1 X2 X3 = Inr (submersion h Q P S) \<and>
         in_manifold_eigen env h (submersion h Q P S) eps = Inr True"
proof -
  note H = Hurwitz_Inr [OF inst]
  let ?n = "self_n h"
  let ?T = "self_tensorial_size h"
  have f: "forward h X1 X2 X3 = Inr (submersion h Q P S)"
    by (simp add: forward_def ProductManifold_forward_def Hurwitz_manifolds [OF inst M] Q P S)
  have sz: "size_of (submersion h Q P S) = ?T @ [?n, ?n]"
    using submersion_size [of Q ?T ?n P S h ?n] sizes H(2,5) by simp
  have nc: "ncols (size_of P) = ?n"
    using sizes(2) H(2) by (metis ncols_append)
  have ent: "mat_at (submersion h Q P S) b i j =
      (\<Sum>k<?n. mat_at P b i k * (- (1 / 2) * mat_at Q b k j + mat_at S b k j))
        - self_alpha h * (if i = j then 1 else 0)" for b i j
    by (simp add: submersion_entry nc H(5) eye_def)
  have m: "in_manifold_eigen env h (submersion h Q P S) eps = Inr True"
  proof (rule in_manifold_eigen_stable [where P = "mat_at P"
        and K = "\<lambda>b k j. - (1 / 2) * mat_at Q b k j + mat_at S b k j", OF sz _ _ _ sound eps])
    fix b i j
    show "mat_at (submersion h Q P S) b i j =
      (\<Sum>k<?n. mat_at P b i k * (- (1 / 2) * mat_at Q b k j + mat_at S b k j))
        - self_alpha h * (if i = j then 1 else 0)"
      by (rule ent)
  next
    fix b assume "b \<in> set (batch_indices ?T)"
    then show "is_psd ?n (mat_at P b)" using mani by blast
  next
    fix b x assume "b \<in> set (batch_indices ?T)"
    then have "is_psd ?n (mat_at Q b)" "is_skew ?n (mat_at S b)" using mani by blast+
    then show "quad ?n (\<lambda>k j. - (1 / 2) * mat_at Q b k j + mat_at S b k j) x \<le> 0"
      by (rule quad_half_psd_plus_skew)
  qed
  show ?thesis using f m by simp
qed

lemma sample_in_manifold:
  assumes inst: "Hurwitz cls sz alpha triv = Inr h" and eps: "0 \<le> eps"
    and sound: "eigvals_sound env (fst (sample h init g))"
  shows "in_manifold_eigen env h (fst (sample h init g)) eps = Inr True"
proof -
  note H = Hurwitz_Inr [OF inst]
  let ?n = "self_n h"
  let ?T = "self_tensorial_size h"
  let ?sz = "?T @ [?n, ?n]"
  define xp where "xp = fst (init ?sz g)"
  define g1 where "g1 = snd (init ?sz g)"
  define xq where "xq = fst (init ?sz g1)"
  define g2 where "g2 = snd (init ?sz g1)"
  define xs where "xs = fst (init ?sz g2)"
  let ?A = "fst (sample h init g)"
  have sz: "size_of ?A = ?sz"
    by (simp add: sample_def Let_def case_prod_beta t_sub_def t_matmul_def t_add_def t_smul_def
        t_transpose_def H(5) eye_def)
  have ent: "mat_at ?A b i j =
      (\<Sum>k<?n. (\<Sum>l<?n. xp b i l * xp b k l) *
          (- (1 / 2) * (\<Sum>l<?n. xq b k l * xq b j l) + (xs b k j - xs b j k)))
        - self_alpha h * (if i = j then 1 else 0)" for b i j
    by (simp add: sample_def Let_def case_prod_beta t_sub_def t_matmul_def t_add_def t_smul_def
        t_transpose_def H(5) eye_def xp_def xq_def xs_def g1_def g2_def)
  show ?thesis
  proof (rule in_manifold_eigen_stable [where P = "\<lambda>b i k. \<Sum>l<?n. xp b i l * xp b k l"
        and K = "\<lambda>b k j. - (1 / 2) * (\<Sum>l<?n. xq b k l * xq b j l) + (xs b k j - xs b j k)",
        OF sz _ _ _ sound eps])
    fix b i j
    show "mat_at ?A b i j =
      (\<Sum>k<?n. (\<Sum>l<?n. xp b i l * xp b k l) *
          (- (1 / 2) * (\<Sum>l<?n. xq b k l * xq b j l) + (xs b k j - xs b j k)))
        - self_alpha h * (if i = j then 1 else 0)"
      by (rule ent)
  next
    fix b
    show "is_psd ?n (\<lambda>i k. \<Sum>l<?n. xp b i l * xp b k l)"
      by (rule gram_psd)
  next
    fix b x
    show "quad ?n (\<lambda>k j. - (1 / 2) * (\<Sum>l<?n. xq b k l * xq b j l) + (xs b k j - xs b j k)) x \<le> 0"
      by (rule quad_half_psd_plus_skew [OF gram_psd antisym_skew])
  qed
qed

lemma produced_points_exact:
  assumes "Hurwitz cls sz alpha triv = Inr h" and "0 \<le> eps"
  shows "(PSD cls sz triv = Inr M \<and>
          size_of (m_forward M X1) = sz \<and>
          size_of (m_forward M X2) = sz \<and>
          size_of (m_forward (Skew cls) X3) = sz \<and>
          (\<forall>b\<in>set (batch_indices (self_tensorial_size h)).
             is_psd (self_n h) (mat_at (m_forward M X1) b) \<and>
             is_psd (self_n h) (mat_at (m_forward M X2) b) \<and>
             is_skew (self_n h) (mat_at (m_forward (Skew cls) X3) b)) \<and>
          (\<forall>A. forward h X1 X2 X3 = Inr A \<longrightarrow> eigvals_sound env A) \<longrightarrow>
            (\<exists>A. forward h X1 X2 X3 = Inr A \<and> in_manifold_eigen env h A eps = Inr True)) \<and>
         (eigvals_sound env (fst (sample h init g)) \<longrightarrow>
            in_manifold_eigen env h (fst (sample h init g)) eps = Inr True)"
proof (intro conjI impI)
  let ?Q = "m_forward M X1"
  let ?P = "m_forward M X2"
  let ?S = "m_forward (Skew cls) X3"
  assume a0: "PSD cls sz triv = Inr M \<and> size_of ?Q = sz \<and> size_of ?P = sz \<and> size_of ?S = sz \<and>
          (\<forall>b\<in>set (batch_indices (self_tensorial_size h)).
             is_psd (self_n h) (mat_at ?Q b) \<and> is_psd (self_n h) (mat_at ?P b) \<and>
             is_skew (self_n h) (mat_at ?S b)) \<and>
          (\<forall>A. forward h X1 X2 X3 = Inr A \<longrightarrow> eigvals_sound env A)"
  note M = a0 [THEN conjunct1]
  note a = a0 [THEN conjunct2]
  have "size_of ?Q = sz \<and> size_of ?P = sz \<and> size_of ?S = sz \<and>
          (\<forall>b\<in>set (batch_indices (self_tensorial_size h)).
             is_psd (self_n h) (mat_at ?Q b) \<and> is_psd (self_n h) (mat_at ?P b) \<and>
             is_skew (self_n h) (mat_at ?S b)) \<and>
          (\<forall>A. forward h X1 X2 X3 = Inr A \<longrightarrow> eigvals_sound env A)"
    by (rule a)
  have f: "forward h X1 X2 X3 = Inr (submersion h ?Q ?P ?S)"
    by (simp add: forward_def ProductManifold_forward_def Hurwitz_manifolds [OF assms(1) M])
  note s1 = a [THEN conjunct1]
  note s2 = a [THEN conjunct2, THEN conjunct1]
  note s3 = a [THEN conjunct2, THEN conjunct2, THEN conjunct1]
  note m = a [THEN conjunct2, THEN conjunct2, THEN conjunct2, THEN conjunct1]
  note e = a [THEN conjunct2, THEN conjunct2, THEN conjunct2, THEN conjunct2]
  have sound: "eigvals_sound env (submersion h ?Q ?P ?S)"
    using e [THEN spec, THEN mp, OF f] .
  have m': "is_psd (self_n h) (mat_at ?Q b) \<and> is_psd (self_n h) (mat_at ?P b) \<and>
             is_skew (self_n h) (mat_at ?S b)"
    if "b \<in> set (batch_indices (self_tensorial_size h))" for b
    using m that by (rule bspec)
  have "forward h X1 X2 X3 = Inr (submersion h ?Q ?P ?S) \<and>
         in_manifold_eigen env h (submersion h ?Q ?P ?S) eps = Inr True"
    by (rule forward_in_manifold [OF assms M refl refl refl s1 s2 s3 m' sound])
  then show "\<exists>A. forward h X1 X2 X3 = Inr A \<and> in_manifold_eigen env h A eps = Inr True"
    by (intro exI [of _ "submersion h ?Q ?P ?S"])
next
  assume "eigvals_sound env (fst (sample h init g))"
  then show "in_manifold_eigen env h (fst (sample h init g)) eps = Inr True"
    by (rule sample_in_manifold [OF assms])
qed


lemma sum_lessThan_2c: "(\<Sum>k<(2::nat). f k) = f 0 + (f 1 :: complex)"
  by (simp add: numeral_2_eq_2)

lemma is_eigenvalue_2I:
  assumes "v0 \<noteq> 0 \<or> v1 \<noteq> 0"
    and "M 0 0 * v0 + M 0 1 * v1 = ev * v0" and "M 1 0 * v0 + M 1 1 * v1 = ev * v1"
  shows "is_eigenvalue 2 M (complex_of_real ev)"
proof -
  let ?v = "\<lambda>i::nat. if i = 0 then complex_of_real v0 else complex_of_real v1"
  have nz: "\<exists>i<2. ?v i \<noteq> 0"
  proof (cases "v0 = 0")
    case True
    then have "(1::nat) < 2 \<and> ?v 1 \<noteq> 0" using assms(1) by simp
    then show ?thesis by blast
  next
    case False
    then have "(0::nat) < 2 \<and> ?v 0 \<noteq> 0" by simp
    then show ?thesis by blast
  qed
  have c0: "complex_of_real (M 0 0 * v0 + M 0 1 * v1) = complex_of_real (ev * v0)"
    by (simp only: assms(2))
  have r0: "(\<Sum>j<2. complex_of_real (M 0 j) * ?v j) = complex_of_real ev * ?v 0"
    using c0 by (simp add: sum_lessThan_2c)
  have c1: "complex_of_real (M 1 0 * v0 + M 1 1 * v1) = complex_of_real (ev * v1)"
    by (simp only: assms(3))
  have r1: "(\<Sum>j<2. complex_of_real (M 1 j) * ?v j) = complex_of_real ev * ?v 1"
    using c1 by (simp add: sum_lessThan_2c)
  have eq: "\<forall>i<2. (\<Sum>j<2. complex_of_real (M i j) * ?v j) = complex_of_real ev * ?v i"
  proof (intro allI impI)
    fix i :: nat assume "i < 2"
    then consider "i = 0" | "i = 1" by linarith
    then show "(\<Sum>j<2. complex_of_real (M i j) * ?v j) = complex_of_real ev * ?v i"
    proof cases
      case 1
      then show ?thesis using r0 by (simp only:)
    next
      case 2
      then show ?thesis using r1 by (simp only:)
    qed
  qed
  show ?thesis
    unfolding is_eigenvalue_def
    by (rule exI [of _ ?v]) (rule conjI [OF nz eq])
qed

lemma upper_triangular_2x2_sound:
  assumes sz: "size_of A = [2, 2]" and low: "mat_at A [] 1 0 = 0"
  shows "eigvals_sound (sample_env inst ans) A"
proof -
  let ?M = "mat_at A []"
  have e0: "is_eigenvalue 2 ?M (complex_of_real (?M 0 0))"
  proof (rule is_eigenvalue_2I [of 1 0])
    show "(1::real) \<noteq> 0 \<or> (0::real) \<noteq> 0" by simp
    show "?M 0 0 * 1 + ?M 0 1 * 0 = ?M 0 0 * 1" by simp
    show "?M 1 0 * 1 + ?M 1 1 * 0 = ?M 0 0 * 0" using low by simp
  qed
  have e1: "is_eigenvalue 2 ?M (complex_of_real (?M 1 1))"
  proof (cases "?M 1 1 = ?M 0 0")
    case True
    then show ?thesis using e0 by simp
  next
    case False
    show ?thesis
    proof (rule is_eigenvalue_2I [of "?M 0 1" "?M 1 1 - ?M 0 0"])
      show "?M 0 1 \<noteq> 0 \<or> ?M 1 1 - ?M 0 0 \<noteq> 0" using False by simp
      show "?M 0 0 * ?M 0 1 + ?M 0 1 * (?M 1 1 - ?M 0 0) = ?M 1 1 * ?M 0 1"
        by (simp add: algebra_simps)
      show "?M 1 0 * ?M 0 1 + ?M 1 1 * (?M 1 1 - ?M 0 0) = ?M 1 1 * (?M 1 1 - ?M 0 0)"
        using low by simp
    qed
  qed
  have u: "[0..<2] = [0, Suc 0]" by (simp add: numeral_2_eq_2)
  have "torch_eigvals (sample_env inst ans) 2 ?M = triangular_eigvals 2 ?M"
    by (simp add: sample_env_def)
  also have "\<dots> = [complex_of_real (?M 0 0), complex_of_real (?M 1 1)]"
    unfolding triangular_eigvals_def u by simp
  finally have s: "torch_eigvals (sample_env inst ans) 2 ?M =
      [complex_of_real (?M 0 0), complex_of_real (?M 1 1)]" .
  have b: "batch_indices (batch_of (size_of A)) = [[]]" "ncols (size_of A) = 2"
    by (simp_all add: sz batch_of_def ncols_def batch_indices_def)
  show ?thesis
    using e0 e1 by (simp add: eigvals_sound_def b s)
qed


lemma gram_forward_psd:
  "is_psd 2 (mat_at (m_forward gram_manifold (Tensor 2 M)) b)"
proof -
  have "mat_at (m_forward gram_manifold (Tensor 2 M)) b = (\<lambda>i j. \<Sum>k<2. M i k * M j k)"
    by (simp add: gram_manifold_def t_matmul_def t_transpose_def Tensor_def ncols_def)
  then show ?thesis
    by (simp only: gram_psd)
qed

lemma antisym_forward_skew:
  "is_skew 2 (mat_at (m_forward antisym_manifold (Tensor 2 M)) b)"
proof -
  have "mat_at (m_forward antisym_manifold (Tensor 2 M)) b = (\<lambda>i j. M i j - M j i)"
    by (simp add: antisym_manifold_def t_sub_def t_transpose_def Tensor_def)
  then show ?thesis
    by (simp only: antisym_skew)
qed

lemma sample_result:
  assumes In: "self_In h = eye m"
    and sz: "sz = self_tensorial_size h @ [self_n h, self_n h]"
    and d: "xp = fst (init sz g)" "g1 = snd (init sz g)" "xq = fst (init sz g1)"
      "g2 = snd (init sz g1)" "xs = fst (init sz g2)"
  shows "size_of (fst (sample h init g)) = sz"
    and "mat_at (fst (sample h init g)) b i j =
      (\<Sum>k<self_n h. (\<Sum>l<self_n h. xp b i l * xp b k l) *
          (- (1 / 2) * (\<Sum>l<self_n h. xq b k l * xq b j l) + (xs b k j - xs b j k)))
        - self_alpha h * (if i = j then 1 else 0)"
    and "snd (sample h init g) = snd (init sz g2)"
  by (simp_all add: sample_def Let_def case_prod_beta t_sub_def t_matmul_def t_add_def t_smul_def
      t_transpose_def In eye_def sz d)

text \<open>
  Claim C1, as amended. In exact arithmetic, on an instance the constructor returned and
  for a tolerance \<open>eps \<ge> 0\<close>: when the three sub-manifolds return tensors of the instance's
  size that are, at every batch index, positive semidefinite, positive semidefinite and
  skew-symmetric, \<open>forward\<close> returns a tensor that passes \<open>in_manifold_eigen\<close>; and
  whatever the initializer draws, the tensor \<open>sample\<close> returns passes
  \<open>in_manifold_eigen\<close>. Both hold for an eigenvalue routine that returns eigenvalues of
  the matrices it is given: every eigenvalue of \<open>P (-Q/2 + S) - alpha I\<close> has real part at
  most \<open>-alpha\<close>.
\<close>

theorem produced_points_in_manifold:
  assumes "Hurwitz cls sz alpha triv = Inr h" and "0 \<le> eps"
  shows "(PSD cls sz triv = Inr M \<and>
          size_of (m_forward M X1) = sz \<and>
          size_of (m_forward M X2) = sz \<and>
          size_of (m_forward (Skew cls) X3) = sz \<and>
          (\<forall>b\<in>set (batch_indices (self_tensorial_size h)).
             is_psd (self_n h) (mat_at (m_forward M X1) b) \<and>
             is_psd (self_n h) (mat_at (m_forward M X2) b) \<and>
             is_skew (self_n h) (mat_at (m_forward (Skew cls) X3) b)) \<and>
          (\<forall>A. forward_fl exact h X1 X2 X3 = Inr A \<longrightarrow> eigvals_sound env A) \<longrightarrow>
            (\<exists>A. forward_fl exact h X1 X2 X3 = Inr A \<and>
                 in_manifold_eigen_fl exact env h A eps = Inr True)) \<and>
         (eigvals_sound env (fst (sample_fl exact h init g)) \<longrightarrow>
            in_manifold_eigen_fl exact env h (fst (sample_fl exact h init g)) eps = Inr True)"
  unfolding forward_fl_exact sample_fl_exact in_manifold_eigen_fl_exact
  by (rule produced_points_exact [OF assms])

theorem produced_points_in_manifold_witness:
  "(\<exists>A. forward_fl exact (sample_instance 2 1) (Tensor 2 (of_rows [[1, 0], [2, 1]]))
           (Tensor 2 (of_rows [[1, 0], [0, 1]])) (Tensor 2 (of_rows [[0, 0], [1, 0]])) = Inr A \<and>
        mat_at A [] 0 0 = - 3 / 2 \<and> mat_at A [] 0 1 = - 2 \<and>
        mat_at A [] 1 0 = 0 \<and> mat_at A [] 1 1 = - 7 / 2 \<and>
        in_manifold_eigen_fl exact (sample_env [] (Inl Lib_SolverError)) (sample_instance 2 1) A
          default_eps = Inr True) \<and>
   in_manifold_eigen_fl exact (sample_env [] (Inl Lib_SolverError)) (sample_instance 2 1)
     (fst (sample_fl exact (sample_instance 2 1)
        (listed_init [\<lambda>b. of_rows [[1, 0], [0, 1]], \<lambda>b. of_rows [[1, 0], [2, 1]],
                      \<lambda>b. of_rows [[0, 0], [1, 0]]]) 0)) default_eps = Inr True"
proof -
  let ?h = "sample_instance 2 1"
  let ?env = "sample_env [] (Inl Lib_SolverError)"
  let ?X1 = "Tensor 2 (of_rows [[1, 0], [2, 1]])"
  let ?X2 = "Tensor 2 (of_rows [[1, 0], [0, 1]])"
  let ?X3 = "Tensor 2 (of_rows [[0, 0], [1, 0]])"
  let ?init = "listed_init [\<lambda>b. of_rows [[1, 0], [0, 1]], \<lambda>b. of_rows [[1, 0], [2, 1]],
                      \<lambda>b. of_rows [[0, 0], [1, 0]]]"
  have c: "Hurwitz sample_classes [2, 2] 1 (Name ''expm'') = Inr ?h"
    by (simp add: sample_instance_constructed)
  have eps: "0 \<le> default_eps"
    by (simp add: default_eps_def)
  have cls: "PSD sample_classes [2, 2] (Name ''expm'') = Inr gram_manifold" "Skew sample_classes = antisym_manifold"
    by (simp_all add: sample_classes_def)
  have hh: "self_tensorial_size ?h = []" "self_n ?h = 2" "self_alpha ?h = 1" "self_In ?h = eye 2"
    by (simp_all add: sample_instance_def)
  let ?Q = "m_forward gram_manifold ?X1"
  let ?P = "m_forward gram_manifold ?X2"
  let ?S = "m_forward antisym_manifold ?X3"
  have sz: "size_of ?Q = [2, 2]" "size_of ?P = [2, 2]" "size_of ?S = [2, 2]"
    by (simp_all add: gram_manifold_def antisym_manifold_def t_matmul_def
        t_transpose_def t_sub_def Tensor_def batch_of_def nrows_def ncols_def broadcast_def)
  have Q: "mat_at ?Q [] 0 0 = 1" "mat_at ?Q [] 0 1 = 2" "mat_at ?Q [] 1 0 = 2" "mat_at ?Q [] 1 1 = 5"
    by (simp_all add: gram_manifold_def t_matmul_def t_transpose_def Tensor_def
        ncols_def of_rows_def sum_lessThan_2)
  have P: "mat_at ?P [] 0 0 = 1" "mat_at ?P [] 0 1 = 0" "mat_at ?P [] 1 0 = 0" "mat_at ?P [] 1 1 = 1"
    by (simp_all add: gram_manifold_def t_matmul_def t_transpose_def Tensor_def
        ncols_def of_rows_def sum_lessThan_2)
  have S: "mat_at ?S [] 0 0 = 0" "mat_at ?S [] 0 1 = - 1" "mat_at ?S [] 1 0 = 1" "mat_at ?S [] 1 1 = 0"
    by (simp_all add: antisym_manifold_def t_sub_def t_transpose_def Tensor_def of_rows_def)
  let ?A = "submersion ?h ?Q ?P ?S"
  have f: "forward ?h ?X1 ?X2 ?X3 = Inr ?A"
    by (simp add: forward_def ProductManifold_forward_def sample_instance_def)
  have nc: "ncols (size_of ?P) = 2"
    by (simp add: sz ncols_def)
  have A: "mat_at ?A [] 0 0 = - 3 / 2" "mat_at ?A [] 0 1 = - 2" "mat_at ?A [] 1 0 = 0"
    "mat_at ?A [] 1 1 = - 7 / 2"
    using Q P S by (simp_all add: submersion_entry nc sum_lessThan_2 hh eye_def)
  have szA: "size_of ?A = [2, 2]"
    using submersion_size [of ?Q "[]" 2 ?P ?S ?h 2] sz hh(4) by simp
  have soundA: "eigvals_sound ?env ?A"
    by (rule upper_triangular_2x2_sound [OF szA A(3)])
  let ?B = "fst (sample ?h ?init 0)"
  have i0: "fst (?init [2, 2] 0) = (\<lambda>b. of_rows [[1, 0], [0, 1]])" "snd (?init [2, 2] 0) = Suc 0"
    by (simp_all add: listed_init_def)
  have i1: "fst (?init [2, 2] (Suc 0)) = (\<lambda>b. of_rows [[1, 0], [2, 1]])"
    "snd (?init [2, 2] (Suc 0)) = Suc (Suc 0)"
    by (simp_all add: listed_init_def)
  have i2: "fst (?init [2, 2] (Suc (Suc 0))) = (\<lambda>b. of_rows [[0, 0], [1, 0]])"
    by (simp add: listed_init_def)
  note R = sample_result [of ?h 2 "[2, 2]" "\<lambda>b. of_rows [[1, 0], [0, 1]]" ?init 0 "Suc 0"
      "\<lambda>b. of_rows [[1, 0], [2, 1]]" "Suc (Suc 0)" "\<lambda>b. of_rows [[0, 0], [1, 0]]",
      OF hh(4) _ i0(1) [symmetric] i0(2) [symmetric] i1(1) [symmetric] i1(2) [symmetric]
      i2 [symmetric]]
  have szh: "[2, 2] = self_tensorial_size ?h @ [self_n ?h, self_n ?h]"
    by (simp add: hh)
  have szB: "size_of ?B = [2, 2]"
    by (rule R(1) [OF szh])
  have B10: "mat_at ?B [] 1 0 = 0"
    unfolding R(2) [OF szh] hh by (simp add: sum_lessThan_2 of_rows_def)
  have soundB: "eigvals_sound ?env ?B"
    by (rule upper_triangular_2x2_sound [OF szB B10])
  note T = produced_points_in_manifold [OF c eps, of gram_manifold ?X1 ?X2 ?X3 ?env ?init 0,
      unfolded forward_fl_exact sample_fl_exact in_manifold_eigen_fl_exact]
  have hyp: "PSD sample_classes [2, 2] (Name ''expm'') = Inr gram_manifold \<and>
          size_of (m_forward gram_manifold ?X1) = [2, 2] \<and>
          size_of (m_forward gram_manifold ?X2) = [2, 2] \<and>
          size_of (m_forward (Skew sample_classes) ?X3) = [2, 2] \<and>
          (\<forall>b\<in>set (batch_indices (self_tensorial_size ?h)).
             is_psd (self_n ?h) (mat_at (m_forward gram_manifold ?X1) b) \<and>
             is_psd (self_n ?h) (mat_at (m_forward gram_manifold ?X2) b) \<and>
             is_skew (self_n ?h) (mat_at (m_forward (Skew sample_classes) ?X3) b)) \<and>
          (\<forall>A. forward ?h ?X1 ?X2 ?X3 = Inr A \<longrightarrow> eigvals_sound ?env A)"
    unfolding cls hh using sz soundA f gram_forward_psd antisym_forward_skew by simp
  obtain A' where A': "forward ?h ?X1 ?X2 ?X3 = Inr A'"
      "in_manifold_eigen ?env ?h A' default_eps = Inr True"
    using T [THEN conjunct1, THEN mp, OF hyp] by (elim exE conjE)
  have "A' = ?A" using A'(1) f by simp
  then have 1: "forward ?h ?X1 ?X2 ?X3 = Inr ?A \<and>
        mat_at ?A [] 0 0 = - 3 / 2 \<and> mat_at ?A [] 0 1 = - 2 \<and>
        mat_at ?A [] 1 0 = 0 \<and> mat_at ?A [] 1 1 = - 7 / 2 \<and>
        in_manifold_eigen ?env ?h ?A default_eps = Inr True"
    using f A A'(2) by (simp only: simp_thms)
  have 2: "in_manifold_eigen ?env ?h ?B default_eps = Inr True"
    using T [THEN conjunct2, THEN mp, OF soundB] .
  show ?thesis
    unfolding forward_fl_exact sample_fl_exact in_manifold_eigen_fl_exact
    using 1 2 by (intro conjI exI [of _ ?A]) (simp_all only: simp_thms)
qed


section \<open>Produced matrices in binary32\<close>

lemma sample_fl_result:
  assumes d: "xp = fst (init sz g)" "g1 = snd (init sz g)" "xq = fst (init sz g1)"
      "g2 = snd (init sz g1)" "xs = fst (init sz g2)"
    and sz: "sz = self_tensorial_size h @ [self_n h, self_n h]"
    and X: "X_p = t_round (dtype_round ar) \<lparr>size_of = sz, mat_at = xp\<rparr>"
      "X_q = t_round (dtype_round ar) \<lparr>size_of = sz, mat_at = xq\<rparr>"
      "X_s = t_round (dtype_round ar) \<lparr>size_of = sz, mat_at = xs\<rparr>"
  shows "fst (sample_fl ar h init g) =
     submersion_fl ar h (t_round (dtype_round ar) (t_matmul X_q (t_transpose X_q)))
       (t_round (dtype_round ar) (t_matmul X_p (t_transpose X_p)))
       (t_round (dtype_round ar) (t_sub X_s (t_transpose X_s)))"
  by (simp add: sample_fl_def submersion_fl_def Let_def case_prod_beta d sz X)

lemma binary32_values:
  "float32 3 = 3" "float32 0 = 0" "float32 18 = 18" "float32 (- 9) = - 9" "float32 (- 324) = - 324"
  "float32 (float64 (1 / 10000)) = 13743895 / 137438953472"
  "float32 (- 324 - 13743895 / 137438953472) = - 324 - 3 / 32768"
  by (simp_all add: float_eval)

lemma sample_binary32:
  "size_of (fst (sample_fl torch_default (sample_instance 2 (1 / 10 ^ 4))
      (listed_init [\<lambda>b. of_rows [[3, 3], [3, 3]], \<lambda>b. of_rows [[3, 3], [3, 3]],
                    \<lambda>b. of_rows [[3, 3], [3, 3]]]) 0)) = [2, 2]"
  "mat_at (fst (sample_fl torch_default (sample_instance 2 (1 / 10 ^ 4))
      (listed_init [\<lambda>b. of_rows [[3, 3], [3, 3]], \<lambda>b. of_rows [[3, 3], [3, 3]],
                    \<lambda>b. of_rows [[3, 3], [3, 3]]]) 0)) [] 0 0 = - 324 - 3 / 32768"
  "mat_at (fst (sample_fl torch_default (sample_instance 2 (1 / 10 ^ 4))
      (listed_init [\<lambda>b. of_rows [[3, 3], [3, 3]], \<lambda>b. of_rows [[3, 3], [3, 3]],
                    \<lambda>b. of_rows [[3, 3], [3, 3]]]) 0)) [] 0 1 = - 324"
  "mat_at (fst (sample_fl torch_default (sample_instance 2 (1 / 10 ^ 4))
      (listed_init [\<lambda>b. of_rows [[3, 3], [3, 3]], \<lambda>b. of_rows [[3, 3], [3, 3]],
                    \<lambda>b. of_rows [[3, 3], [3, 3]]]) 0)) [] 1 0 = - 324"
  "mat_at (fst (sample_fl torch_default (sample_instance 2 (1 / 10 ^ 4))
      (listed_init [\<lambda>b. of_rows [[3, 3], [3, 3]], \<lambda>b. of_rows [[3, 3], [3, 3]],
                    \<lambda>b. of_rows [[3, 3], [3, 3]]]) 0)) [] 1 1 = - 324 - 3 / 32768"
proof -
  let ?h = "sample_instance 2 (1 / 10 ^ 4)"
  let ?x = "\<lambda>b::nat list. of_rows [[3, 3], [3, 3]]"
  let ?init = "listed_init [?x, ?x, ?x]"
  let ?A = "fst (sample_fl torch_default ?h ?init 0)"
  define X where "X = t_round float32 \<lparr>size_of = [2, 2], mat_at = ?x\<rparr>"
  define P where "P = t_round float32 (t_matmul X (t_transpose X))"
  define S where "S = t_round float32 (t_sub X (t_transpose X))"
  define H where "H = t_round float32 (t_smul (- (1 / 2)) P)"
  define K where "K = t_round float32 (t_add H S)"
  define L where "L = t_round float32 (t_matmul P K)"
  define J where "J = t_round float32 (t_smul (float64 (1 / 10 ^ 4)) (eye 2))"
  have hh: "self_tensorial_size ?h = []" "self_n ?h = 2" "self_alpha ?h = 1 / 10 ^ 4"
    "self_In ?h = eye 2"
    by (simp_all add: sample_instance_def)
  have dr: "dtype_round torch_default = float32" "py_round torch_default = float64"
    by (simp_all add: torch_default_def)
  have i: "fst (?init [2, 2] 0) = ?x" "snd (?init [2, 2] 0) = Suc 0"
    "fst (?init [2, 2] (Suc 0)) = ?x" "snd (?init [2, 2] (Suc 0)) = Suc (Suc 0)"
    "fst (?init [2, 2] (Suc (Suc 0))) = ?x"
    by (simp_all add: listed_init_def)
  have A: "?A = submersion_fl torch_default ?h P P S"
    unfolding P_def S_def
    by (rule sample_fl_result [where sz = "[2, 2]" and ar = torch_default and xp = ?x and xq = ?x
          and xs = ?x and ?g1.0 = "Suc 0" and ?g2.0 = "Suc (Suc 0)", unfolded dr])
      (simp_all add: i sample_instance_def X_def)
  have A': "?A = t_round float32 (t_sub L J)"
    unfolding A by (simp add: submersion_fl_def Let_def dr sample_instance_def L_def K_def H_def J_def)
  have Xs: "size_of X = [2, 2]"
    by (simp add: X_def t_round_def)
  have Xe: "mat_at X [] 0 0 = 3" "mat_at X [] 0 1 = 3" "mat_at X [] 1 0 = 3" "mat_at X [] 1 1 = 3"
    by (simp_all add: X_def t_round_def of_rows_def binary32_values)
  have Ps: "size_of P = [2, 2]"
    by (simp add: P_def t_round_def t_matmul_def t_transpose_def Xs batch_of_def nrows_def ncols_def
        broadcast_def)
  have Pe: "mat_at P [] 0 0 = 18" "mat_at P [] 0 1 = 18" "mat_at P [] 1 0 = 18" "mat_at P [] 1 1 = 18"
    using Xe
    by (simp_all add: P_def t_round_def t_matmul_def t_transpose_def Xs ncols_def sum_lessThan_2
        binary32_values)
  have Se: "mat_at S [] 0 0 = 0" "mat_at S [] 0 1 = 0" "mat_at S [] 1 0 = 0" "mat_at S [] 1 1 = 0"
    using Xe by (simp_all add: S_def t_round_def t_sub_def t_transpose_def binary32_values)
  have He: "mat_at H [] 0 0 = - 9" "mat_at H [] 0 1 = - 9" "mat_at H [] 1 0 = - 9" "mat_at H [] 1 1 = - 9"
    using Pe by (simp_all add: H_def t_round_def t_smul_def binary32_values)
  have Ke: "mat_at K [] 0 0 = - 9" "mat_at K [] 0 1 = - 9" "mat_at K [] 1 0 = - 9" "mat_at K [] 1 1 = - 9"
    using He Se by (simp_all add: K_def t_round_def t_add_def binary32_values)
  have Le: "mat_at L [] 0 0 = - 324" "mat_at L [] 0 1 = - 324" "mat_at L [] 1 0 = - 324"
    "mat_at L [] 1 1 = - 324"
    using Pe Ke
    by (simp_all add: L_def t_round_def t_matmul_def Ps ncols_def sum_lessThan_2 binary32_values)
  have Ss: "size_of S = [2, 2]"
    by (simp add: S_def t_round_def t_sub_def t_transpose_def Xs batch_of_def nrows_def ncols_def
        broadcast_def)
  have Ls: "size_of L = [2, 2]"
    by (simp add: L_def K_def H_def t_round_def t_matmul_def t_add_def t_smul_def Ps Ss batch_of_def
        nrows_def ncols_def broadcast_def)
  have Je: "mat_at J [] 0 0 = 13743895 / 137438953472" "mat_at J [] 0 1 = 0" "mat_at J [] 1 0 = 0"
    "mat_at J [] 1 1 = 13743895 / 137438953472"
    by (simp_all add: J_def t_round_def t_smul_def eye_def binary32_values)
  have Js: "size_of J = [2, 2]"
    by (simp add: J_def t_round_def t_smul_def eye_def)
  show "size_of ?A = [2, 2]"
    unfolding A' by (simp add: t_round_def t_sub_def Ls Js)
  have v: "float32 (- 324 - 13743895 / 137438953472) = - 324 - 3 / 32768"
    "float32 (- 324 - 0) = - 324"
    by (simp_all add: float_eval)
  show "mat_at ?A [] 0 0 = - 324 - 3 / 32768"
    by (simp only: A' t_round_def t_sub_def tensor.select_convs Le Je v)
  show "mat_at ?A [] 0 1 = - 324"
    by (simp only: A' t_round_def t_sub_def tensor.select_convs Le Je v)
  show "mat_at ?A [] 1 0 = - 324"
    by (simp only: A' t_round_def t_sub_def tensor.select_convs Le Je v)
  show "mat_at ?A [] 1 1 = - 324 - 3 / 32768"
    by (simp only: A' t_round_def t_sub_def tensor.select_convs Le Je v)
qed

lemma bisymmetric_sound:
  assumes sz: "size_of A = [2, 2]" and d: "mat_at A [] 1 1 = mat_at A [] 0 0"
    and o: "mat_at A [] 1 0 = mat_at A [] 0 1"
  shows "eigvals_sound bisymmetric_env A"
proof -
  let ?M = "mat_at A []"
  have e0: "is_eigenvalue 2 ?M (complex_of_real (?M 0 0 + ?M 0 1))"
  proof (rule is_eigenvalue_2I [of 1 1])
    show "(1::real) \<noteq> 0 \<or> (1::real) \<noteq> 0" by simp
    show "?M 0 0 * 1 + ?M 0 1 * 1 = (?M 0 0 + ?M 0 1) * 1" by simp
    show "?M 1 0 * 1 + ?M 1 1 * 1 = (?M 0 0 + ?M 0 1) * 1" using d o by simp
  qed
  have e1: "is_eigenvalue 2 ?M (complex_of_real (?M 0 0 - ?M 0 1))"
  proof (rule is_eigenvalue_2I [of 1 "- 1"])
    show "(1::real) \<noteq> 0 \<or> (- 1::real) \<noteq> 0" by simp
    show "?M 0 0 * 1 + ?M 0 1 * (- 1) = (?M 0 0 - ?M 0 1) * 1" by simp
    show "?M 1 0 * 1 + ?M 1 1 * (- 1) = (?M 0 0 - ?M 0 1) * (- 1)" using d o by simp
  qed
  have b: "batch_indices (batch_of (size_of A)) = [[]]" "ncols (size_of A) = 2"
    by (simp_all add: sz batch_of_def ncols_def batch_indices_def)
  show ?thesis
    using e0 e1 by (simp add: eigvals_sound_def b bisymmetric_env_def bisymmetric_eigvals_def)
qed

lemma in_manifold_eigen_fl_2x2:
  assumes "size_of A = [2, 2]" and "self_tensorial_size h = []"
  shows "in_manifold_eigen_fl ar env h A eps =
     Inr (list_all (\<lambda>r. r \<le> dtype_round ar (py_round ar (- py_round ar (self_alpha h) + py_round ar eps)))
            (map Re (torch_eigvals env 2 (mat_at A []))))"
  using assms
  by (simp add: in_manifold_eigen_fl_def linalg_eigvals_def Let_def batch_of_def nrows_def ncols_def)

lemma binary32_threshold:
  "float32 (float64 (- float64 (1 / 10 ^ 4) + float64 (1 / 10 ^ 6))) = - 13606456 / 2 ^ 37"
  by (simp add: float_eval)

text \<open>
  The claim as stated fails in the arithmetic of the program. Take \<open>alpha = 1e-4\<close> and an
  initializer that fills its tensor with \<open>3\<close>: \<open>P\<close> and \<open>Q\<close> have all entries \<open>18\<close>, \<open>S\<close> is
  zero and \<open>P (-Q/2 + S)\<close> has all entries \<open>-324\<close>, all of them numbers of binary32. The
  numbers of binary32 next to \<open>324\<close> are \<open>1/32768\<close> apart, so subtracting \<open>alpha\<close> on the
  diagonal gives \<open>-324 - 3/32768\<close>. The matrix \<open>sample\<close> returns has the eigenvalue
  \<open>-3/32768\<close>, about \<open>-9.16e-5\<close>, which is above \<open>-alpha + eps = -9.9e-5\<close>: the matrix
  fails \<open>in_manifold_eigen\<close>, with the threshold rounded as the program rounds it and
  with the threshold not rounded.
\<close>

theorem sample_leaves_manifold_in_binary32:
  "Hurwitz sample_classes [2, 2] (1 / 10 ^ 4) (Name ''expm'') = Inr (sample_instance 2 (1 / 10 ^ 4)) \<and>
   size_of (fst (sample_fl torch_default (sample_instance 2 (1 / 10 ^ 4))
      (listed_init [\<lambda>b. of_rows [[3, 3], [3, 3]], \<lambda>b. of_rows [[3, 3], [3, 3]],
                    \<lambda>b. of_rows [[3, 3], [3, 3]]]) 0)) = [2, 2] \<and>
   mat_at (fst (sample_fl torch_default (sample_instance 2 (1 / 10 ^ 4))
      (listed_init [\<lambda>b. of_rows [[3, 3], [3, 3]], \<lambda>b. of_rows [[3, 3], [3, 3]],
                    \<lambda>b. of_rows [[3, 3], [3, 3]]]) 0)) [] 0 0 = - 324 - 3 / 32768 \<and>
   mat_at (fst (sample_fl torch_default (sample_instance 2 (1 / 10 ^ 4))
      (listed_init [\<lambda>b. of_rows [[3, 3], [3, 3]], \<lambda>b. of_rows [[3, 3], [3, 3]],
                    \<lambda>b. of_rows [[3, 3], [3, 3]]]) 0)) [] 0 1 = - 324 \<and>
   mat_at (fst (sample_fl torch_default (sample_instance 2 (1 / 10 ^ 4))
      (listed_init [\<lambda>b. of_rows [[3, 3], [3, 3]], \<lambda>b. of_rows [[3, 3], [3, 3]],
                    \<lambda>b. of_rows [[3, 3], [3, 3]]]) 0)) [] 1 0 = - 324 \<and>
   mat_at (fst (sample_fl torch_default (sample_instance 2 (1 / 10 ^ 4))
      (listed_init [\<lambda>b. of_rows [[3, 3], [3, 3]], \<lambda>b. of_rows [[3, 3], [3, 3]],
                    \<lambda>b. of_rows [[3, 3], [3, 3]]]) 0)) [] 1 1 = - 324 - 3 / 32768 \<and>
   eigvals_sound bisymmetric_env (fst (sample_fl torch_default (sample_instance 2 (1 / 10 ^ 4))
      (listed_init [\<lambda>b. of_rows [[3, 3], [3, 3]], \<lambda>b. of_rows [[3, 3], [3, 3]],
                    \<lambda>b. of_rows [[3, 3], [3, 3]]]) 0)) \<and>
   is_eigenvalue 2 (mat_at (fst (sample_fl torch_default (sample_instance 2 (1 / 10 ^ 4))
      (listed_init [\<lambda>b. of_rows [[3, 3], [3, 3]], \<lambda>b. of_rows [[3, 3], [3, 3]],
                    \<lambda>b. of_rows [[3, 3], [3, 3]]]) 0)) []) (complex_of_real (- 3 / 32768)) \<and>
   - (1 / 10 ^ 4) + default_eps < - 3 / 32768 \<and>
   in_manifold_eigen_fl torch_default bisymmetric_env (sample_instance 2 (1 / 10 ^ 4))
     (fst (sample_fl torch_default (sample_instance 2 (1 / 10 ^ 4))
      (listed_init [\<lambda>b. of_rows [[3, 3], [3, 3]], \<lambda>b. of_rows [[3, 3], [3, 3]],
                    \<lambda>b. of_rows [[3, 3], [3, 3]]]) 0)) default_eps = Inr False \<and>
   in_manifold_eigen_fl exact bisymmetric_env (sample_instance 2 (1 / 10 ^ 4))
     (fst (sample_fl torch_default (sample_instance 2 (1 / 10 ^ 4))
      (listed_init [\<lambda>b. of_rows [[3, 3], [3, 3]], \<lambda>b. of_rows [[3, 3], [3, 3]],
                    \<lambda>b. of_rows [[3, 3], [3, 3]]]) 0)) default_eps = Inr False"
proof -
  let ?h = "sample_instance 2 (1 / 10 ^ 4)"
  let ?A = "fst (sample_fl torch_default ?h
      (listed_init [\<lambda>b. of_rows [[3, 3], [3, 3]], \<lambda>b. of_rows [[3, 3], [3, 3]],
                    \<lambda>b. of_rows [[3, 3], [3, 3]]]) 0)"
  note A = sample_binary32
  have c: "Hurwitz sample_classes [2, 2] (1 / 10 ^ 4) (Name ''expm'') = Inr ?h"
    by (rule sample_instance_constructed) simp
  have d: "mat_at ?A [] 1 1 = mat_at ?A [] 0 0" "mat_at ?A [] 1 0 = mat_at ?A [] 0 1"
    by (simp_all only: A)
  have s: "eigvals_sound bisymmetric_env ?A"
    by (rule bisymmetric_sound [OF A(1) d])
  have ev: "torch_eigvals bisymmetric_env 2 (mat_at ?A []) =
      [complex_of_real (- 324 - 3 / 32768 + - 324), complex_of_real (- 324 - 3 / 32768 - - 324)]"
    by (simp only: bisymmetric_env_def env.select_convs bisymmetric_eigvals_def A)
  have ev': "torch_eigvals bisymmetric_env 2 (mat_at ?A []) =
      [complex_of_real (- 648 - 3 / 32768), complex_of_real (- 3 / 32768)]"
    unfolding ev by simp
  have e: "is_eigenvalue 2 (mat_at ?A []) (complex_of_real (- 3 / 32768))"
    using s ev' A(1) by (simp add: eigvals_sound_def batch_of_def ncols_def)
  have t: "- (1 / 10 ^ 4) + default_eps < - 3 / 32768"
    by (simp add: default_eps_def)
  have hh: "self_tensorial_size ?h = []" "self_alpha ?h = 1 / 10 ^ 4"
    by (simp_all add: sample_instance_def)
  have dr: "dtype_round torch_default = float32" "py_round torch_default = float64"
    by (simp_all add: torch_default_def)
  have m: "in_manifold_eigen_fl torch_default bisymmetric_env ?h ?A default_eps = Inr False"
    unfolding in_manifold_eigen_fl_2x2 [OF A(1) hh(1)] ev' dr hh(2) default_eps_def binary32_threshold
    by simp
  have m': "in_manifold_eigen_fl exact bisymmetric_env ?h ?A default_eps = Inr False"
    unfolding in_manifold_eigen_fl_2x2 [OF A(1) hh(1)] ev' hh(2) default_eps_def
    by (simp add: exact_def)
  show ?thesis
    using c A s e t m m' by (intro conjI)
qed


section \<open>The recovered factors\<close>

lemma transpose_product_sym:
  assumes "is_symmetric nx P" and "i < nx" and "j < nx"
  shows "(\<Sum>k<nx. A k j * P k i) = (\<Sum>k<nx. P i k * A k j)"
proof (intro sum.cong refl)
  fix k assume "k \<in> {..<nx}"
  then have "P k i = P i k"
    using assms unfolding is_symmetric_def by simp
  then show "A k j * P k i = P i k * A k j"
    by (simp only: mult.commute)
qed

lemma lyapunov_expr_symmetric:
  assumes "is_symmetric nx P"
  shows "is_symmetric nx (lyapunov_expr h nx A P)"
  unfolding is_symmetric_def
proof (intro allI impI)
  fix i j assume i: "i < nx" and j: "j < nx"
  have "P i j = P j i"
    using assms i j unfolding is_symmetric_def by simp
  then show "lyapunov_expr h nx A P i j = lyapunov_expr h nx A P j i"
    using transpose_product_sym [OF assms i j, of A] transpose_product_sym [OF assms j i, of A]
    by (simp add: lyapunov_expr_entry)
qed

lemma half_diff_flip:
  fixes a b c d :: real
  assumes "d = a" and "b = c"
  shows "(a - b) / 2 = - ((c - d) / 2)"
  using assms by (simp add: field_simps)

lemma recovered_S_entry:
  "m_add (m_add (m_mul nx P A) (m_smul (1 / 2) (m_smul (- 1) (lyapunov_expr h nx A P))))
         (m_smul (self_alpha h) P) i j =
   ((\<Sum>k<nx. P i k * A k j) - (\<Sum>k<nx. A k i * P k j)) / 2"
  by (simp add: lyapunov_expr_entry m_add_def m_mul_def m_smul_def algebra_simps)

lemma recovered_S_skew:
  assumes "is_symmetric nx P"
  shows "is_skew nx (m_add (m_add (m_mul nx P A) (m_smul (1 / 2) (m_smul (- 1) (lyapunov_expr h nx A P))))
                      (m_smul (self_alpha h) P))"
  unfolding is_skew_def
proof (intro allI impI)
  fix i j assume i: "i < nx" and j: "j < nx"
  show "m_add (m_add (m_mul nx P A) (m_smul (1 / 2) (m_smul (- 1) (lyapunov_expr h nx A P))))
                      (m_smul (self_alpha h) P) i j =
             - m_add (m_add (m_mul nx P A) (m_smul (1 / 2) (m_smul (- 1) (lyapunov_expr h nx A P))))
                      (m_smul (self_alpha h) P) j i"
    unfolding recovered_S_entry
    by (rule half_diff_flip [OF transpose_product_sym [OF assms i j] transpose_product_sym [OF assms j i]])
qed

lemma recovered_Q_psd:
  assumes feas: "feasible (sdp_problem h nx A epsilon) P" and eps: "0 \<le> epsilon"
  shows "is_psd nx (m_smul (- 1) (lyapunov_expr h nx A P))"
proof -
  have psdP: "is_psd nx P"
    and le: "\<And>x. quad nx (lyapunov_expr h nx A P) x \<le> - epsilon * (\<Sum>i<nx. x i * x i)"
    using feas by (simp_all add: feasible_sdp_problem)
  have sym: "is_symmetric nx (lyapunov_expr h nx A P)"
    using psdP by (intro lyapunov_expr_symmetric) (simp add: is_psd_def)
  have "0 \<le> quad nx (m_smul (- 1) (lyapunov_expr h nx A P)) x" for x
  proof -
    have "0 \<le> (\<Sum>i<nx. x i * x i)" by (simp add: sum_nonneg)
    then have "0 \<le> epsilon * (\<Sum>i<nx. x i * x i)" using eps by simp
    then show ?thesis using le [of x] by (simp add: quad_m_smul)
  qed
  moreover have "is_symmetric nx (m_smul (- 1) (lyapunov_expr h nx A P))"
    using sym by (simp add: is_symmetric_def m_smul_def)
  ultimately show ?thesis by (simp add: is_psd_def)
qed

lemma solve_and_recover_Inr:
  assumes sq: "size_of A = [nx, nx]"
    and solve: "cvxpy_solve env solver (sdp_problem h nx (mat_at A []) epsilon) st =
                  (Inr (status, Some Pv), st')"
    and ok: "status \<noteq> ''infeasible''" "status \<noteq> ''unbounded''"
    and inv: "torch_inverse env nx Pv = Inr P_inv"
  shows "solve_and_recover env h A epsilon solver st =
     (Inr (Tensor nx (m_smul (- 1) (lyapunov_expr h nx (mat_at A []) Pv)),
           Tensor nx P_inv,
           Tensor nx (m_add (m_add (m_mul nx Pv (mat_at A []))
                        (m_smul (1 / 2) (m_smul (- 1) (lyapunov_expr h nx (mat_at A []) Pv))))
                        (m_smul (self_alpha h) Pv))), st')"
  using assms by (simp add: solve_and_recover_def nrows_def Let_def)

text \<open>
  Claim C5. Let \<open>A\<close> be a square matrix that passes the membership test when it is run,
  let the solver leave a symmetric value \<open>P\<close> with a status other than \<^verbatim>\<open>infeasible\<close> and
  \<^verbatim>\<open>unbounded\<close>, and let \<^verbatim>\<open>torch.inverse\<close> return \<open>P_inv\<close>. Then \<open>submersion_inv\<close> returns
  \<open>(Q, P_inv, S)\<close> with \<open>Q = -(A\<^sup>T P + P A + 2 alpha P)\<close> and \<open>S = P A + Q/2 + alpha P\<close>;
  \<open>Q\<close> is symmetric and \<open>S\<close> is skew-symmetric; \<open>Q\<close> is positive semidefinite when \<open>P\<close>
  satisfies the constraints of the program and the margin is not negative; and
  \<open>right_inverse\<close> hands \<open>[Q, P_inv, S]\<close> to the right inverse of the product.
\<close>

theorem recovered_factors:
  assumes sq: "size_of A = [nx, nx]"
    and chk: "check_in_manifold \<longrightarrow> in_manifold_eigen env h A epsilon = Inr True"
    and solve: "cvxpy_solve env solver (sdp_problem h nx (mat_at A []) epsilon) st =
                  (Inr (status, Some Pv), st')"
    and ok: "status \<noteq> ''infeasible''" "status \<noteq> ''unbounded''"
    and inv: "torch_inverse env nx Pv = Inr P_inv"
    and sym: "is_symmetric nx Pv"
  shows "\<exists>Q S.
      submersion_inv env h A check_in_manifold epsilon solver st =
        (Inr (Tensor nx Q, Tensor nx P_inv, Tensor nx S), st') \<and>
      (\<forall>i j. Q i j = - ((\<Sum>k<nx. mat_at A [] k i * Pv k j) + (\<Sum>k<nx. Pv i k * mat_at A [] k j)
                          + 2 * self_alpha h * Pv i j)) \<and>
      (\<forall>i j. S i j = (\<Sum>k<nx. Pv i k * mat_at A [] k j) + (1 / 2) * Q i j + self_alpha h * Pv i j) \<and>
      is_symmetric nx Q \<and> is_skew nx S \<and>
      (feasible (sdp_problem h nx (mat_at A []) epsilon) Pv \<and> 0 \<le> epsilon \<longrightarrow> is_psd nx Q) \<and>
      (epsilon = default_epsilon \<and> solver = default_solver \<longrightarrow>
         right_inverse env h A check_in_manifold st =
           (case ProductManifold_right_inverse (manifolds_of h)
                   [Tensor nx Q, Tensor nx P_inv, Tensor nx S] True of
              Inl e \<Rightarrow> (Inl e, st')
            | Inr [X1, X2, X3] \<Rightarrow> (Inr (X1, X2, X3), st')
            | Inr _ \<Rightarrow> (Inl ValueError, st')))"
proof -
  let ?Am = "mat_at A []"
  let ?Q = "m_smul (- 1) (lyapunov_expr h nx ?Am Pv)"
  let ?S = "m_add (m_add (m_mul nx Pv ?Am) (m_smul (1 / 2) ?Q)) (m_smul (self_alpha h) Pv)"
  have sr: "solve_and_recover env h A epsilon solver st =
      (Inr (Tensor nx ?Q, Tensor nx P_inv, Tensor nx ?S), st')"
    by (rule solve_and_recover_Inr [OF sq solve ok inv])
  have 1: "submersion_inv env h A check_in_manifold epsilon solver st =
      (Inr (Tensor nx ?Q, Tensor nx P_inv, Tensor nx ?S), st')"
    using chk sr by (simp add: submersion_inv_def)
  have 2: "\<forall>i j. ?Q i j = - ((\<Sum>k<nx. ?Am k i * Pv k j) + (\<Sum>k<nx. Pv i k * ?Am k j)
                          + 2 * self_alpha h * Pv i j)"
    by (simp add: m_smul_def lyapunov_expr_entry)
  have 3: "\<forall>i j. ?S i j = (\<Sum>k<nx. Pv i k * ?Am k j) + (1 / 2) * ?Q i j + self_alpha h * Pv i j"
    by (simp add: m_add_def m_mul_def m_smul_def)
  have 4: "is_symmetric nx ?Q"
    using lyapunov_expr_symmetric [OF sym, of h ?Am] by (simp add: is_symmetric_def m_smul_def)
  have 5: "is_skew nx ?S"
    by (rule recovered_S_skew [OF sym])
  have 6: "feasible (sdp_problem h nx ?Am epsilon) Pv \<and> 0 \<le> epsilon \<longrightarrow> is_psd nx ?Q"
    using recovered_Q_psd [of h nx ?Am epsilon Pv] by (intro impI) (elim conjE)
  have 7: "epsilon = default_epsilon \<and> solver = default_solver \<longrightarrow>
         right_inverse env h A check_in_manifold st =
           (case ProductManifold_right_inverse (manifolds_of h)
                   [Tensor nx ?Q, Tensor nx P_inv, Tensor nx ?S] True of
              Inl e \<Rightarrow> (Inl e, st')
            | Inr [X1, X2, X3] \<Rightarrow> (Inr (X1, X2, X3), st')
            | Inr _ \<Rightarrow> (Inl ValueError, st'))"
  proof (intro impI, elim conjE)
    assume d: "epsilon = default_epsilon" "solver = default_solver"
    show "right_inverse env h A check_in_manifold st =
           (case ProductManifold_right_inverse (manifolds_of h)
                   [Tensor nx ?Q, Tensor nx P_inv, Tensor nx ?S] True of
              Inl e \<Rightarrow> (Inl e, st')
            | Inr [X1, X2, X3] \<Rightarrow> (Inr (X1, X2, X3), st')
            | Inr _ \<Rightarrow> (Inl ValueError, st'))"
      unfolding right_inverse_def 1 [unfolded d] by simp
  qed
  show ?thesis
    by (rule exI [of _ ?Q], rule exI [of _ ?S]) (intro conjI 1 2 3 4 5 6 7)
qed

lemma quad_2: "quad 2 M x = x 0 * M 0 0 * x 0 + x 0 * M 0 1 * x 1 + (x 1 * M 1 0 * x 0 + x 1 * M 1 1 * x 1)"
  by (simp add: quad_def sum_lessThan_2)

lemma forall_less_2: "(\<forall>i<(2::nat). P i) \<longleftrightarrow> P 0 \<and> P 1"
proof -
  have "i < 2 \<longleftrightarrow> i = 0 \<or> i = 1" for i :: nat by auto
  then show ?thesis by auto
qed

lemma two_ab: "2 * (a * b) \<le> a * a + b * (b::real)"
  using zero_le_square [of "a - b"] by (simp add: algebra_simps)

lemma margin_arith:
  fixes p q m :: real
  assumes "0 \<le> p" "0 \<le> q" "2 * m \<le> p + q"
  shows "2 * m - 2 * p - 4 * q \<le> - (1 / 10 ^ 8) * (p + q)"
proof -
  have "2 * m - 2 * p - 4 * q \<le> - (1 / 100000000) * (p + q)"
    using assms by argo
  then show ?thesis by simp
qed

lemma margin_arith':
  fixes p q :: real
  assumes "0 \<le> p" "0 \<le> q"
  shows "1 / 10 ^ 8 * (p + q) \<le> p + q"
proof -
  have "1 / 100000000 * (p + q) \<le> p + q"
    using assms by argo
  then show ?thesis by simp
qed

lemma sample_program_feasible:
  "feasible (sdp_problem (sample_instance 2 1) 2 (of_rows [[- 2, 1], [0, - 3]]) default_epsilon)
     (of_rows [[1, 0], [0, 1]])"
proof -
  let ?h = "sample_instance 2 1"
  let ?A = "of_rows [[- 2, 1], [0, - 3]]"
  let ?P = "of_rows [[1, 0], [0, 1]]"
  have L: "lyapunov_expr ?h 2 ?A ?P 0 0 = - 2" "lyapunov_expr ?h 2 ?A ?P 0 1 = 1"
    "lyapunov_expr ?h 2 ?A ?P 1 0 = 1" "lyapunov_expr ?h 2 ?A ?P 1 1 = - 4"
    by (simp_all add: lyapunov_expr_entry sum_lessThan_2 of_rows_def sample_instance_def)
  have Pe: "?P 0 0 = 1" "?P 0 1 = 0" "?P 1 0 = 0" "?P 1 1 = 1"
    by (simp_all add: of_rows_def)
  have psd: "is_psd 2 ?P"
    using Pe by (simp add: is_psd_def is_symmetric_def forall_less_2 quad_2)
  have sq: "(\<Sum>i<2. x i * x i) = x 0 * x 0 + x 1 * x 1" for x :: "nat \<Rightarrow> real"
    by (simp add: sum_lessThan_2)
  have a: "quad 2 (lyapunov_expr ?h 2 ?A ?P) x \<le> - default_epsilon * (\<Sum>i<2. x i * x i)" for x
  proof -
    have p: "0 \<le> x 0 * x 0" and q: "0 \<le> x 1 * x 1" by simp_all
    have e: "quad 2 (lyapunov_expr ?h 2 ?A ?P) x =
        2 * (x 0 * x 1) - 2 * (x 0 * x 0) - 4 * (x 1 * x 1)"
      unfolding quad_2 L by (simp add: algebra_simps)
    show ?thesis
      unfolding e sq default_epsilon_def using p q two_ab [of "x 0" "x 1"] by (simp only: margin_arith)
  qed
  have b: "default_epsilon * (\<Sum>i<2. x i * x i) \<le> quad 2 ?P x" for x
  proof -
    have p: "0 \<le> x 0 * x 0" and q: "0 \<le> x 1 * x 1" by simp_all
    have e: "quad 2 ?P x = x 0 * x 0 + x 1 * x 1"
      unfolding quad_2 Pe by simp
    show ?thesis
      unfolding e sq default_epsilon_def using p q by (simp only: margin_arith')
  qed
  show ?thesis
    unfolding feasible_sdp_problem using psd a b by (intro conjI allI)
qed

lemma sample_matrix_passes:
  "in_manifold_eigen (sample_env inst ans) (sample_instance 2 1)
     (Tensor 2 (of_rows [[- 2, 1], [0, - 3]])) default_epsilon = Inr True"
  by (simp add: in_manifold_eigen_def linalg_eigvals_def batch_of_def nrows_def ncols_def
      sample_instance_def Tensor_def sample_env_def triangular_eigvals_def of_rows_def
      default_epsilon_def upt_2)

theorem recovered_factors_witness:
  "\<exists>Q S.
     submersion_inv (sample_env [''MOSEK''] (Inr (''optimal'', Some (of_rows [[1, 0], [0, 1]]))))
        (sample_instance 2 1) (Tensor 2 (of_rows [[- 2, 1], [0, - 3]])) True default_epsilon
        default_solver [] =
       (Inr (Tensor 2 Q, Tensor 2 (\<lambda>i j. if i = j then 1 / of_rows [[1, 0], [0, 1]] i i else 0),
             Tensor 2 S),
        [(''MOSEK'', sdp_problem (sample_instance 2 1) 2 (of_rows [[- 2, 1], [0, - 3]]) default_epsilon)]) \<and>
     Q 0 0 = 2 \<and> Q 0 1 = - 1 \<and> Q 1 0 = - 1 \<and> Q 1 1 = 4 \<and>
     S 0 0 = 0 \<and> S 0 1 = 1 / 2 \<and> S 1 0 = - 1 / 2 \<and> S 1 1 = 0 \<and>
     is_symmetric 2 Q \<and> is_skew 2 S \<and> is_psd 2 Q"
proof -
  let ?P = "of_rows [[1, 0], [0, 1]]"
  let ?Am = "of_rows [[- 2, 1], [0, - 3]]"
  let ?env = "sample_env [''MOSEK''] (Inr (''optimal'', Some ?P))"
  let ?h = "sample_instance 2 1"
  let ?A = "Tensor 2 ?Am"
  let ?R = "\<lambda>i j. if i = j then 1 / ?P i i else 0 :: real"
  let ?calls = "[(''MOSEK'', sdp_problem ?h 2 ?Am default_epsilon)]"
  have sq: "size_of ?A = [2, 2]" and Am: "mat_at ?A [] = ?Am"
    by (simp_all add: Tensor_def)
  have chk: "True \<longrightarrow> in_manifold_eigen ?env ?h ?A default_epsilon = Inr True"
    by (simp add: sample_matrix_passes)
  have solve: "cvxpy_solve ?env default_solver (sdp_problem ?h 2 (mat_at ?A []) default_epsilon) [] =
      (Inr (''optimal'', Some ?P), ?calls)"
    by (simp add: sample_env_def recording_solver_def default_solver_def Am)
  have ok: "''optimal'' \<noteq> ''infeasible''" "''optimal'' \<noteq> ''unbounded''"
    by simp_all
  have Pe: "?P 0 0 = 1" "?P 0 1 = 0" "?P 1 0 = 0" "?P 1 1 = 1"
    by (simp_all add: of_rows_def)
  have inv: "torch_inverse ?env 2 ?P = Inr ?R"
    using Pe by (simp add: sample_env_def diagonal_inverse_def upt_2)
  have sym: "is_symmetric 2 ?P"
    using Pe by (simp add: is_symmetric_def forall_less_2)
  have feas: "feasible (sdp_problem ?h 2 (mat_at ?A []) default_epsilon) ?P"
    unfolding Am by (rule sample_program_feasible)
  have eps: "0 \<le> default_epsilon"
    by (simp add: default_epsilon_def)
  obtain Q S where
    r: "submersion_inv ?env ?h ?A True default_epsilon default_solver [] =
          (Inr (Tensor 2 Q, Tensor 2 ?R, Tensor 2 S), ?calls)"
    and Q: "\<forall>i j. Q i j = - ((\<Sum>k<2. mat_at ?A [] k i * ?P k j) + (\<Sum>k<2. ?P i k * mat_at ?A [] k j)
                          + 2 * self_alpha ?h * ?P i j)"
    and S: "\<forall>i j. S i j = (\<Sum>k<2. ?P i k * mat_at ?A [] k j) + (1 / 2) * Q i j + self_alpha ?h * ?P i j"
    and p: "is_symmetric 2 Q" "is_skew 2 S"
    and psd: "feasible (sdp_problem ?h 2 (mat_at ?A []) default_epsilon) ?P \<and> 0 \<le> default_epsilon
               \<longrightarrow> is_psd 2 Q"
    using recovered_factors [OF sq chk solve ok inv sym] by (elim exE conjE)
  have Ae: "?Am 0 0 = - 2" "?Am 0 1 = 1" "?Am 1 0 = 0" "?Am 1 1 = - 3"
    by (simp_all add: of_rows_def)
  have al: "self_alpha ?h = 1"
    by (simp add: sample_instance_def)
  have Qe: "Q 0 0 = 2" "Q 0 1 = - 1" "Q 1 0 = - 1" "Q 1 1 = 4"
    unfolding Q [rule_format] Am al sum_lessThan_2 using Pe Ae by simp_all
  have Se: "S 0 0 = 0" "S 0 1 = 1 / 2" "S 1 0 = - 1 / 2" "S 1 1 = 0"
    unfolding S [rule_format] Am al sum_lessThan_2 using Pe Ae Qe by simp_all
  have "is_psd 2 Q"
    using psd feas eps by (elim impE) (intro conjI)
  then show ?thesis
    using r Qe Se p by (intro exI [of _ Q] exI [of _ S] conjI)
qed

section \<open>The round trip\<close>

lemma recovered_combination:
  "- (1 / 2) * m_smul (- 1) (lyapunov_expr h nx A P) k j +
     m_add (m_add (m_mul nx P A) (m_smul (1 / 2) (m_smul (- 1) (lyapunov_expr h nx A P))))
           (m_smul (self_alpha h) P) k j =
   (\<Sum>l<nx. P k l * A l j) + self_alpha h * P k j"
  by (simp add: m_add_def m_mul_def m_smul_def)

lemma left_inverse_row:
  fixes R P A :: rmat and c :: real
  assumes linv: "\<And>i j. i < nx \<Longrightarrow> j < nx \<Longrightarrow> (\<Sum>k<nx. R i k * P k j) = (if i = j then 1 else 0)"
    and i: "i < nx" and j: "j < nx"
  shows "(\<Sum>k<nx. R i k * ((\<Sum>l<nx. P k l * A l j) + c * P k j)) = A i j + c * (if i = j then 1 else 0)"
proof -
  have "(\<Sum>k<nx. R i k * ((\<Sum>l<nx. P k l * A l j) + c * P k j)) =
        (\<Sum>k<nx. \<Sum>l<nx. R i k * P k l * A l j) + c * (\<Sum>k<nx. R i k * P k j)"
  proof -
    have "R i k * ((\<Sum>l<nx. P k l * A l j) + c * P k j) =
          (\<Sum>l<nx. R i k * P k l * A l j) + c * (R i k * P k j)" for k
    proof -
      have "R i k * ((\<Sum>l<nx. P k l * A l j) + c * P k j) =
            R i k * (\<Sum>l<nx. P k l * A l j) + R i k * (c * P k j)"
        by (rule distrib_left)
      also have "R i k * (\<Sum>l<nx. P k l * A l j) = (\<Sum>l<nx. R i k * (P k l * A l j))"
        by (rule sum_distrib_left)
      also have "\<dots> = (\<Sum>l<nx. R i k * P k l * A l j)"
        by (simp only: mult.assoc)
      also have "R i k * (c * P k j) = c * (R i k * P k j)"
        by (rule mult.left_commute)
      finally show ?thesis .
    qed
    then show ?thesis
      by (simp only: sum.distrib sum_distrib_left)
  qed
  also have "(\<Sum>k<nx. \<Sum>l<nx. R i k * P k l * A l j) = (\<Sum>l<nx. \<Sum>k<nx. R i k * P k l * A l j)"
    by (rule sum.swap)
  also have "\<dots> = (\<Sum>l<nx. (\<Sum>k<nx. R i k * P k l) * A l j)"
    by (simp only: sum_distrib_right)
  also have "\<dots> = (\<Sum>l<nx. (if i = l then A l j else 0))"
    by (intro sum.cong refl) (simp add: linv [OF i])
  also have "\<dots> = A i j"
    using i by simp
  finally show ?thesis
    by (simp add: linv [OF i j])
qed

lemma mat_at_Tensor: "mat_at (Tensor nx M) b = M"
  by (simp add: Tensor_def)

lemma ncols_Tensor: "ncols (size_of (Tensor nx M)) = nx"
  by (simp add: Tensor_def ncols_def)

lemma round_trip_entry:
  assumes linv: "\<And>i j. i < nx \<Longrightarrow> j < nx \<Longrightarrow> (\<Sum>k<nx. R i k * P k j) = (if i = j then 1 else 0)"
    and In: "self_In h = eye m" and i: "i < nx" and j: "j < nx"
  shows "mat_at (submersion h (Tensor nx (m_smul (- 1) (lyapunov_expr h nx A P))) (Tensor nx R)
           (Tensor nx (m_add (m_add (m_mul nx P A) (m_smul (1 / 2) (m_smul (- 1) (lyapunov_expr h nx A P))))
                             (m_smul (self_alpha h) P)))) b i j = A i j"
proof -
  have I: "mat_at (self_In h) b i j = (if i = j then 1 else 0)"
    by (simp add: In eye_def)
  have "mat_at (submersion h (Tensor nx (m_smul (- 1) (lyapunov_expr h nx A P))) (Tensor nx R)
           (Tensor nx (m_add (m_add (m_mul nx P A) (m_smul (1 / 2) (m_smul (- 1) (lyapunov_expr h nx A P))))
                             (m_smul (self_alpha h) P)))) b i j =
        (\<Sum>k<nx. R i k * ((\<Sum>l<nx. P k l * A l j) + self_alpha h * P k j))
          - self_alpha h * (if i = j then 1 else 0)"
    unfolding submersion_entry mat_at_Tensor ncols_Tensor I recovered_combination ..
  then show ?thesis
    by (simp add: left_inverse_row [OF linv i j])
qed

lemma solve_and_recover_InrD:
  assumes "solve_and_recover env h A epsilon solver st = (Inr T, st')"
  shows "\<exists>status Pv R.
      size_of A = [nrows (size_of A), nrows (size_of A)] \<and>
      cvxpy_solve env solver (sdp_problem h (nrows (size_of A)) (mat_at A []) epsilon) st =
        (Inr (status, Some Pv), st') \<and>
      torch_inverse env (nrows (size_of A)) Pv = Inr R \<and>
      T = (Tensor (nrows (size_of A)) (m_smul (- 1) (lyapunov_expr h (nrows (size_of A)) (mat_at A []) Pv)),
           Tensor (nrows (size_of A)) R,
           Tensor (nrows (size_of A))
             (m_add (m_add (m_mul (nrows (size_of A)) Pv (mat_at A []))
                (m_smul (1 / 2) (m_smul (- 1) (lyapunov_expr h (nrows (size_of A)) (mat_at A []) Pv))))
                (m_smul (self_alpha h) Pv)))"
  using assms
  by (auto simp: solve_and_recover_def Let_def split: if_splits prod.splits sum.splits option.splits)

lemma submersion_inv_InrD:
  assumes "submersion_inv env h A c epsilon solver st = (Inr T, st')"
  shows "solve_and_recover env h A epsilon solver st = (Inr T, st')"
  using assms by (auto simp: submersion_inv_def split: if_splits sum.splits)

lemma right_inverse_InrD:
  assumes "right_inverse env h A c st = (Inr (X1, X2, X3), st')"
  shows "\<exists>Q P S. submersion_inv env h A c default_epsilon default_solver st = (Inr (Q, P, S), st') \<and>
           ProductManifold_right_inverse (manifolds_of h) [Q, P, S] True = Inr [X1, X2, X3]"
  using assms by (auto simp: right_inverse_def split: prod.splits sum.splits list.splits)

lemma product_right_inverse_3:
  assumes "ProductManifold_right_inverse [qm, pm, sm] [Q, P, S] c = Inr [X1, X2, X3]"
  shows "m_right_inverse qm Q c = Inr X1 \<and> m_right_inverse pm P c = Inr X2 \<and>
         m_right_inverse sm S c = Inr X3"
  using assms by (auto split: sum.splits)

lemma round_trip_forward:
  assumes inst: "Hurwitz cls sz alpha triv = Inr h"
    and ri: "right_inverse env h A check_in_manifold st = (Inr (X1, X2, X3), st')"
    and inv: "\<And>status Pv R.
        cvxpy_solve env default_solver
            (sdp_problem h (nrows (size_of A)) (mat_at A []) default_epsilon) st =
          (Inr (status, Some Pv), st') \<Longrightarrow>
        torch_inverse env (nrows (size_of A)) Pv = Inr R \<Longrightarrow>
        (\<forall>i<nrows (size_of A). \<forall>j<nrows (size_of A).
           (\<Sum>k<nrows (size_of A). R i k * Pv k j) = (if i = j then 1 else 0))"
    and mani: "\<And>m X Y. m \<in> set (manifolds_of h) \<Longrightarrow> m_right_inverse m X True = Inr Y \<Longrightarrow>
        m_forward m Y = X"
  shows "\<exists>A'. forward h X1 X2 X3 = Inr A' \<and> size_of A' = size_of A \<and>
           (\<forall>i<nrows (size_of A). \<forall>j<nrows (size_of A). mat_at A' [] i j = mat_at A [] i j)"
proof -
  note H = Hurwitz_Inr [OF inst]
  let ?nx = "nrows (size_of A)"
  let ?Am = "mat_at A []"
  obtain Qt Pt St where si: "submersion_inv env h A check_in_manifold default_epsilon default_solver st =
        (Inr (Qt, Pt, St), st')"
    and pr: "ProductManifold_right_inverse (manifolds_of h) [Qt, Pt, St] True = Inr [X1, X2, X3]"
    using right_inverse_InrD [OF ri] by blast
  obtain status Pv R where sq: "size_of A = [?nx, ?nx]"
    and solve: "cvxpy_solve env default_solver (sdp_problem h ?nx ?Am default_epsilon) st =
        (Inr (status, Some Pv), st')"
    and tinv: "torch_inverse env ?nx Pv = Inr R"
    and T: "(Qt, Pt, St) =
          (Tensor ?nx (m_smul (- 1) (lyapunov_expr h ?nx ?Am Pv)), Tensor ?nx R,
           Tensor ?nx (m_add (m_add (m_mul ?nx Pv ?Am)
                (m_smul (1 / 2) (m_smul (- 1) (lyapunov_expr h ?nx ?Am Pv))))
                (m_smul (self_alpha h) Pv)))"
    using solve_and_recover_InrD [OF submersion_inv_InrD [OF si]] by blast
  have linv: "(\<Sum>k<?nx. R i k * Pv k j) = (if i = j then 1 else 0)" if "i < ?nx" "j < ?nx" for i j
    using inv [OF solve tinv] that by blast
  obtain qm where ms0: "manifolds_of h = [qm, qm, Skew cls]"
    using H(6) by blast
  let ?qm = qm
  let ?sm = "Skew cls"
  have ms: "manifolds_of h = [?qm, ?qm, ?sm]"
    by (rule ms0)
  have r: "m_right_inverse ?qm Qt True = Inr X1" "m_right_inverse ?qm Pt True = Inr X2"
    "m_right_inverse ?sm St True = Inr X3"
    using product_right_inverse_3 [OF pr [unfolded ms]] by blast+
  have fw: "m_forward ?qm X1 = Qt" "m_forward ?qm X2 = Pt" "m_forward ?sm X3 = St"
    using r mani [of ?qm] mani [of ?sm] by (simp_all add: ms)
  have f: "forward h X1 X2 X3 = Inr (submersion h Qt Pt St)"
    by (simp add: forward_def ProductManifold_forward_def ms fw)
  have Qt: "Qt = Tensor ?nx (m_smul (- 1) (lyapunov_expr h ?nx ?Am Pv))"
    and Pt: "Pt = Tensor ?nx R"
    and St: "St = Tensor ?nx (m_add (m_add (m_mul ?nx Pv ?Am)
                (m_smul (1 / 2) (m_smul (- 1) (lyapunov_expr h ?nx ?Am Pv))))
                (m_smul (self_alpha h) Pv))"
    using T by simp_all
  have sz: "size_of (submersion h Qt Pt St) = size_of A"
    using submersion_size [of Qt "[]" ?nx Pt St h "self_n h"] H(5) sq
    by (simp add: Qt Pt St Tensor_def)
  have ent: "mat_at (submersion h Qt Pt St) [] i j = ?Am i j" if "i < ?nx" "j < ?nx" for i j
    unfolding Qt Pt St by (rule round_trip_entry [OF linv H(5) that])
  show ?thesis
    using f sz ent by blast
qed

text \<open>
  Claim C3, as amended. On an instance the constructor returned: (1) the identity
  \<open>submersion(Q, R, S) = A\<close> holds entry by entry for the recovered
  \<open>Q = -(A\<^sup>T P + P A + 2 alpha P)\<close> and \<open>S = P A + Q/2 + alpha P\<close> and every left inverse \<open>R\<close>
  of \<open>P\<close>; (2) whenever \<open>right_inverse(A)\<close> returns \<open>(X1, X2, X3)\<close>, \<^verbatim>\<open>torch.inverse\<close> returned
  a left inverse of the value the solver left, and the forward of every sub-manifold
  undoes its right inverse, \<open>forward(X1, X2, X3)\<close> returns a tensor of the size of \<open>A\<close> with
  the entries of \<open>A\<close>.
\<close>

theorem round_trip:
  assumes inst: "Hurwitz cls sz alpha triv = Inr h"
  shows "((\<forall>i<nx. \<forall>j<nx. (\<Sum>k<nx. R i k * P k j) = (if i = j then 1 else 0)) \<longrightarrow>
            (\<forall>i<nx. \<forall>j<nx.
               mat_at (submersion h (Tensor nx (m_smul (- 1) (lyapunov_expr h nx Am P))) (Tensor nx R)
                  (Tensor nx (m_add (m_add (m_mul nx P Am)
                     (m_smul (1 / 2) (m_smul (- 1) (lyapunov_expr h nx Am P))))
                     (m_smul (self_alpha h) P)))) [] i j = Am i j)) \<and>
         (right_inverse env h A check_in_manifold st = (Inr (X1, X2, X3), st') \<and>
          (\<forall>status Pv R'.
             cvxpy_solve env default_solver
                 (sdp_problem h (nrows (size_of A)) (mat_at A []) default_epsilon) st =
               (Inr (status, Some Pv), st') \<and>
             torch_inverse env (nrows (size_of A)) Pv = Inr R' \<longrightarrow>
             (\<forall>i<nrows (size_of A). \<forall>j<nrows (size_of A).
                (\<Sum>k<nrows (size_of A). R' i k * Pv k j) = (if i = j then 1 else 0))) \<and>
          (\<forall>m\<in>set (manifolds_of h). \<forall>X Y. m_right_inverse m X True = Inr Y \<longrightarrow> m_forward m Y = X) \<longrightarrow>
            (\<exists>A'. forward h X1 X2 X3 = Inr A' \<and> size_of A' = size_of A \<and>
               (\<forall>i<nrows (size_of A). \<forall>j<nrows (size_of A). mat_at A' [] i j = mat_at A [] i j)))"
proof (intro conjI impI allI)
  fix i j
  assume linv: "\<forall>i<nx. \<forall>j<nx. (\<Sum>k<nx. R i k * P k j) = (if i = j then 1 else 0)"
    and i: "i < nx" and j: "j < nx"
  have l: "(\<Sum>k<nx. R i k * P k j) = (if i = j then 1 else 0)" if "i < nx" "j < nx" for i j
    using linv that by blast
  show "mat_at (submersion h (Tensor nx (m_smul (- 1) (lyapunov_expr h nx Am P))) (Tensor nx R)
                  (Tensor nx (m_add (m_add (m_mul nx P Am)
                     (m_smul (1 / 2) (m_smul (- 1) (lyapunov_expr h nx Am P))))
                     (m_smul (self_alpha h) P)))) [] i j = Am i j"
    by (rule round_trip_entry [OF l Hurwitz_Inr(5) [OF inst] i j])
next
  assume a: "right_inverse env h A check_in_manifold st = (Inr (X1, X2, X3), st') \<and>
          (\<forall>status Pv R'.
             cvxpy_solve env default_solver
                 (sdp_problem h (nrows (size_of A)) (mat_at A []) default_epsilon) st =
               (Inr (status, Some Pv), st') \<and>
             torch_inverse env (nrows (size_of A)) Pv = Inr R' \<longrightarrow>
             (\<forall>i<nrows (size_of A). \<forall>j<nrows (size_of A).
                (\<Sum>k<nrows (size_of A). R' i k * Pv k j) = (if i = j then 1 else 0))) \<and>
          (\<forall>m\<in>set (manifolds_of h). \<forall>X Y. m_right_inverse m X True = Inr Y \<longrightarrow> m_forward m Y = X)"
  note ri = a [THEN conjunct1]
  note inv = a [THEN conjunct2, THEN conjunct1, rule_format, OF conjI]
  note mani = a [THEN conjunct2, THEN conjunct2, rule_format]
  show "\<exists>A'. forward h X1 X2 X3 = Inr A' \<and> size_of A' = size_of A \<and>
               (\<forall>i<nrows (size_of A). \<forall>j<nrows (size_of A). mat_at A' [] i j = mat_at A [] i j)"
  proof (rule round_trip_forward [OF inst ri])
    fix status Pv R'
    assume "cvxpy_solve env default_solver
                 (sdp_problem h (nrows (size_of A)) (mat_at A []) default_epsilon) st =
               (Inr (status, Some Pv), st')"
      and "torch_inverse env (nrows (size_of A)) Pv = Inr R'"
    then show "\<forall>i<nrows (size_of A). \<forall>j<nrows (size_of A).
                (\<Sum>k<nrows (size_of A). R' i k * Pv k j) = (if i = j then 1 else 0)"
      using a by blast
  next
    fix m X Y
    assume "m \<in> set (manifolds_of h)" "m_right_inverse m X True = Inr Y"
    then show "m_forward m Y = X"
      by (rule mani)
  qed
qed

text \<open>
  The claim as stated promises the round trip for every matrix that passes
  \<open>in_manifold_eigen\<close>. For \<open>alpha = 1\<close> the \<open>1 \<times> 1\<close> matrix \<open>-1 + 5e-7\<close> passes it with the
  default tolerance \<open>1e-6\<close> and fails the test at \<open>1e-8\<close> that \<open>right_inverse\<close> runs:
  \<open>right_inverse\<close> raises \<^verbatim>\<open>InManifoldError\<close> and there is nothing to hand to \<open>forward\<close>.
\<close>

theorem round_trip_stops_at_the_gate:
  "in_manifold_eigen (sample_env [''MOSEK''] (Inr (''optimal'', Some (of_rows [[1]]))))
      (sample_instance 1 1) (Tensor 1 (of_rows [[- 1 + 5 / 10 ^ 7]])) default_eps = Inr True \<and>
   right_inverse (sample_env [''MOSEK''] (Inr (''optimal'', Some (of_rows [[1]]))))
      (sample_instance 1 1) (Tensor 1 (of_rows [[- 1 + 5 / 10 ^ 7]])) True [] =
     (Inl InManifoldError, [])"
proof -
  let ?h = "sample_instance 1 1"
  let ?e1 = "sample_env [''MOSEK''] (Inr (''optimal'', Some (of_rows [[1]])))"
  let ?A1 = "Tensor 1 (of_rows [[- 1 + 5 / 10 ^ 7]])"
  have m1: "in_manifold_eigen ?e1 ?h ?A1 default_eps = Inr True"
    "in_manifold_eigen ?e1 ?h ?A1 default_epsilon = Inr False"
    by (simp_all add: in_manifold_eigen_1x1 default_eps_def default_epsilon_def)
  have r1: "right_inverse ?e1 ?h ?A1 True [] = (Inl InManifoldError, [])"
    unfolding right_inverse_def submersion_inv_def m1 by simp
  show ?thesis
    using m1(1) r1 by (intro conjI)
qed

lemma plain_instance_constructed:
  "0 < alpha \<Longrightarrow> Hurwitz plain_classes [n, n] alpha (Name ''expm'') = Inr (plain_instance n alpha)"
  by (simp add: Hurwitz_def parse_size_def manifolds_def plain_classes_def plain_instance_def)

lemma plain_matrix_passes:
  "in_manifold_eigen (sample_env inst ans) (plain_instance 2 1)
     (Tensor 2 (of_rows [[- 2, 1], [0, - 3]])) default_epsilon = Inr True"
  by (simp add: in_manifold_eigen_def linalg_eigvals_def batch_of_def nrows_def ncols_def
      plain_instance_def Tensor_def sample_env_def triangular_eigvals_def of_rows_def
      default_epsilon_def upt_2)

theorem round_trip_witness:
  "\<exists>X1 X2 X3 st'.
     right_inverse (sample_env [''MOSEK''] (Inr (''optimal'', Some (of_rows [[1, 0], [0, 1]]))))
        (plain_instance 2 1) (Tensor 2 (of_rows [[- 2, 1], [0, - 3]])) True [] =
       (Inr (X1, X2, X3), st') \<and>
     (\<exists>A'. forward (plain_instance 2 1) X1 X2 X3 = Inr A' \<and> size_of A' = [2, 2] \<and>
        mat_at A' [] 0 0 = - 2 \<and> mat_at A' [] 0 1 = 1 \<and>
        mat_at A' [] 1 0 = 0 \<and> mat_at A' [] 1 1 = - 3)"
proof -
  let ?P = "of_rows [[1, 0], [0, 1]]"
  let ?Am = "of_rows [[- 2, 1], [0, - 3]]"
  let ?env = "sample_env [''MOSEK''] (Inr (''optimal'', Some ?P))"
  let ?h = "plain_instance 2 1"
  let ?A = "Tensor 2 ?Am"
  let ?R = "\<lambda>i j. if i = j then 1 / ?P i i else 0 :: real"
  let ?calls = "[(''MOSEK'', sdp_problem ?h 2 ?Am default_epsilon)]"
  let ?Q = "m_smul (- 1) (lyapunov_expr ?h 2 ?Am ?P)"
  let ?S = "m_add (m_add (m_mul 2 ?P ?Am) (m_smul (1 / 2) ?Q)) (m_smul (self_alpha ?h) ?P)"
  have c: "Hurwitz plain_classes [2, 2] 1 (Name ''expm'') = Inr ?h"
    by (simp add: plain_instance_constructed)
  have sq: "size_of ?A = [2, 2]" and Am: "mat_at ?A [] = ?Am" and nr: "nrows (size_of ?A) = 2"
    by (simp_all add: Tensor_def nrows_def)
  have solve: "cvxpy_solve ?env default_solver (sdp_problem ?h 2 (mat_at ?A []) default_epsilon) [] =
      (Inr (''optimal'', Some ?P), ?calls)"
    by (simp add: sample_env_def recording_solver_def default_solver_def Am)
  have Pe: "?P 0 0 = 1" "?P 0 1 = 0" "?P 1 0 = 0" "?P 1 1 = 1"
    by (simp_all add: of_rows_def)
  have inv: "torch_inverse ?env 2 ?P = Inr ?R"
    using Pe by (simp add: sample_env_def diagonal_inverse_def upt_2)
  have sr: "solve_and_recover ?env ?h ?A default_epsilon default_solver [] =
      (Inr (Tensor 2 ?Q, Tensor 2 ?R, Tensor 2 ?S), ?calls)"
    using solve_and_recover_Inr [OF sq solve _ _ inv] unfolding Am by simp
  have ri: "right_inverse ?env ?h ?A True [] = (Inr (Tensor 2 ?Q, Tensor 2 ?R, Tensor 2 ?S), ?calls)"
    unfolding right_inverse_def submersion_inv_def plain_matrix_passes sr
    by (simp add: plain_instance_def plain_manifold_def)
  have linv: "\<forall>i<2. \<forall>j<2. (\<Sum>k<2. ?R i k * ?P k j) = (if i = j then 1 else 0)"
    using Pe by (simp add: forall_less_2 sum_lessThan_2)
  have contract: "\<forall>status Pv R'.
             cvxpy_solve ?env default_solver
                 (sdp_problem ?h (nrows (size_of ?A)) (mat_at ?A []) default_epsilon) [] =
               (Inr (status, Some Pv), ?calls) \<and>
             torch_inverse ?env (nrows (size_of ?A)) Pv = Inr R' \<longrightarrow>
             (\<forall>i<nrows (size_of ?A). \<forall>j<nrows (size_of ?A).
                (\<Sum>k<nrows (size_of ?A). R' i k * Pv k j) = (if i = j then 1 else 0))"
  proof (rule allI, rule allI, rule allI, rule impI, elim conjE)
    fix status Pv R'
    assume s: "cvxpy_solve ?env default_solver
                 (sdp_problem ?h (nrows (size_of ?A)) (mat_at ?A []) default_epsilon) [] =
               (Inr (status, Some Pv), ?calls)"
      and t: "torch_inverse ?env (nrows (size_of ?A)) Pv = Inr R'"
    have "Pv = ?P" using s solve unfolding nr by simp
    moreover from this have "R' = ?R" using t inv unfolding nr by simp
    ultimately show "\<forall>i<nrows (size_of ?A). \<forall>j<nrows (size_of ?A).
                (\<Sum>k<nrows (size_of ?A). R' i k * Pv k j) = (if i = j then 1 else 0)"
      unfolding nr using linv by simp
  qed
  have mani: "\<forall>m\<in>set (manifolds_of ?h). \<forall>X Y. m_right_inverse m X True = Inr Y \<longrightarrow> m_forward m Y = X"
    by (simp add: plain_instance_def plain_manifold_def)
  obtain A' where f: "forward ?h (Tensor 2 ?Q) (Tensor 2 ?R) (Tensor 2 ?S) = Inr A'"
    and s: "size_of A' = size_of ?A"
    and e: "\<forall>i<nrows (size_of ?A). \<forall>j<nrows (size_of ?A). mat_at A' [] i j = mat_at ?A [] i j"
    using round_trip [OF c, THEN conjunct2, THEN mp, OF conjI [OF ri conjI [OF contract mani]]]
    by (elim exE conjE)
  have Ae: "?Am 0 0 = - 2" "?Am 0 1 = 1" "?Am 1 0 = 0" "?Am 1 1 = - 3"
    by (simp_all add: of_rows_def)
  have e': "mat_at A' [] 0 0 = - 2" "mat_at A' [] 0 1 = 1" "mat_at A' [] 1 0 = 0" "mat_at A' [] 1 1 = - 3"
    using e Ae unfolding nr Am forall_less_2 by simp_all
  show ?thesis
    using ri f s [unfolded sq] e'
    by (intro exI [of _ "Tensor 2 ?Q"] exI [of _ "Tensor 2 ?R"] exI [of _ "Tensor 2 ?S"]
        exI [of _ ?calls] exI [of _ A'] conjI)
qed

end
